theory Spec2Isabelle
  imports Complex_Main "HOL-Library.Word" "HOL-Library.Char_ord" "HOL-Library.List_Lexorder"
    "HOL-Library.Log_Nat"
begin

unbundle bit_operations_syntax

section \<open>The value model of the host language\<close>

text \<open>
  The classes \<^verbatim>\<open>Color\<close> and \<^verbatim>\<open>Cast\<close> work on JavaScript values. A number is
  either NaN, one of the two infinities, or finite. A finite number is given by the real
  number it denotes, and the arithmetic operations round their exact result to the 64-bit
  binary format, to an infinity when it is too large. The sign of zero is not modelled.
  Strings are sequences of code units; the model covers the strings whose code units are
  below 256, one \<^typ>\<open>char\<close> per code unit.
\<close>

datatype jsnum = NaN | PosInf | NegInf | Fin real

datatype jsval = Undefined | Null | Bool bool | Num jsnum | Str string

datatype error = TypeError

subsection \<open>Rounding to the 64-bit binary format\<close>

text \<open>
  The nearest integer, the even one of the two when they are equally near.
\<close>

definition roundToEven :: "real \<Rightarrow> int" where
  "roundToEven x =
     (let n = \<lfloor>x\<rfloor>; d = x - of_int n
      in if d < 1 / 2 then n else if 1 / 2 < d then n + 1 else if even n then n else n + 1)"

text \<open>
  The exponent \<open>e\<close> with \<open>2 ^ e \<le> \<bar>x\<bar> < 2 ^ (e + 1)\<close>, from the length in bits of the
  integer part of \<open>\<bar>x\<bar>\<close> or of its inverse.
\<close>

definition binade :: "real \<Rightarrow> int" where
  "binade x =
     (if 1 \<le> \<bar>x\<bar> then bitlen \<lfloor>\<bar>x\<bar>\<rfloor> - 1
      else - bitlen (\<lceil>1 / \<bar>x\<bar>\<rceil> - 1))"

text \<open>
  The distance between neighbouring numbers of the format around \<open>x\<close>: 52 binary places
  below the exponent of \<open>x\<close>, the exponent not going below -1022.
\<close>

definition ulp :: "real \<Rightarrow> real" where
  "ulp x = 2 powi (max (binade x) (- 1022) - 52)"

text \<open>
  The number of the format nearest to \<open>x\<close>, the one with the even last place in a tie;
  an infinity when that is \<open>2 ^ 1024\<close> or more in magnitude.
\<close>

definition roundDouble :: "real \<Rightarrow> jsnum" where
  "roundDouble x =
     (let y = of_int (roundToEven (x / ulp x)) * ulp x
      in if 2 ^ 1024 \<le> \<bar>y\<bar> then (if 0 < x then PosInf else NegInf) else Fin y)"

subsection \<open>Arithmetic and comparison of numbers\<close>

fun jsub :: "jsnum \<Rightarrow> jsnum \<Rightarrow> jsnum" where
  "jsub NaN y = NaN"
| "jsub x NaN = NaN"
| "jsub PosInf PosInf = NaN"
| "jsub NegInf NegInf = NaN"
| "jsub PosInf y = PosInf"
| "jsub NegInf y = NegInf"
| "jsub (Fin x) PosInf = NegInf"
| "jsub (Fin x) NegInf = PosInf"
| "jsub (Fin x) (Fin y) = roundDouble (x - y)"

fun jadd :: "jsnum \<Rightarrow> jsnum \<Rightarrow> jsnum" where
  "jadd NaN y = NaN"
| "jadd x NaN = NaN"
| "jadd PosInf NegInf = NaN"
| "jadd NegInf PosInf = NaN"
| "jadd PosInf y = PosInf"
| "jadd NegInf y = NegInf"
| "jadd (Fin x) PosInf = PosInf"
| "jadd (Fin x) NegInf = NegInf"
| "jadd (Fin x) (Fin y) = roundDouble (x + y)"

text \<open>The product of an infinity with a finite factor: NaN at zero, else by the sign.\<close>

definition infTimes :: "bool \<Rightarrow> real \<Rightarrow> jsnum" where
  "infTimes positive x =
     (if x = 0 then NaN else if (0 < x) = positive then PosInf else NegInf)"

fun jmul :: "jsnum \<Rightarrow> jsnum \<Rightarrow> jsnum" where
  "jmul NaN y = NaN"
| "jmul x NaN = NaN"
| "jmul PosInf PosInf = PosInf"
| "jmul PosInf NegInf = NegInf"
| "jmul NegInf PosInf = NegInf"
| "jmul NegInf NegInf = PosInf"
| "jmul PosInf (Fin y) = infTimes True y"
| "jmul NegInf (Fin y) = infTimes False y"
| "jmul (Fin x) PosInf = infTimes True x"
| "jmul (Fin x) NegInf = infTimes False x"
| "jmul (Fin x) (Fin y) = roundDouble (x * y)"

text \<open>Division. A zero divisor is taken as +0, the sign of zero not being modelled.\<close>

fun jdiv :: "jsnum \<Rightarrow> jsnum \<Rightarrow> jsnum" where
  "jdiv NaN y = NaN"
| "jdiv x NaN = NaN"
| "jdiv (Fin x) (Fin y) =
     (if y = 0 then (if x = 0 then NaN else if 0 < x then PosInf else NegInf)
      else roundDouble (x / y))"
| "jdiv (Fin x) y = Fin 0"
| "jdiv x (Fin y) = (if (x = PosInf) = (0 \<le> y) then PosInf else NegInf)"
| "jdiv x y = NaN"

text \<open>
  Rounding toward zero, and the remainder operator \<^verbatim>\<open>%\<close>, whose sign is the dividend's.
  The remainder of two numbers of the format is a number of the format: nothing is rounded.
\<close>

definition truncate_real :: "real \<Rightarrow> int" where
  "truncate_real x = (if 0 \<le> x then \<lfloor>x\<rfloor> else \<lceil>x\<rceil>)"

fun jmod :: "jsnum \<Rightarrow> jsnum \<Rightarrow> jsnum" where
  "jmod (Fin x) (Fin y) = (if y = 0 then NaN else Fin (x - y * of_int (truncate_real (x / y))))"
| "jmod (Fin x) PosInf = Fin x"
| "jmod (Fin x) NegInf = Fin x"
| "jmod x y = NaN"

fun jlt :: "jsnum \<Rightarrow> jsnum \<Rightarrow> bool" where
  "jlt NaN y = False"
| "jlt x NaN = False"
| "jlt x NegInf = False"
| "jlt PosInf y = False"
| "jlt NegInf y = True"
| "jlt (Fin x) PosInf = True"
| "jlt (Fin x) (Fin y) = (x < y)"

text \<open>Equality of numbers as \<^verbatim>\<open>===\<close> decides it: NaN equals nothing.\<close>

fun jeq :: "jsnum \<Rightarrow> jsnum \<Rightarrow> bool" where
  "jeq NaN y = False"
| "jeq x NaN = False"
| "jeq x y = (x = y)"

definition jle :: "jsnum \<Rightarrow> jsnum \<Rightarrow> bool" where
  "jle x y = (jlt x y \<or> jeq x y)"

definition jgt :: "jsnum \<Rightarrow> jsnum \<Rightarrow> bool" where
  "jgt x y = jlt y x"

definition jge :: "jsnum \<Rightarrow> jsnum \<Rightarrow> bool" where
  "jge x y = jle y x"

definition isNaN :: "jsnum \<Rightarrow> bool" where
  "isNaN x = (x = NaN)"

fun Math_floor :: "jsnum \<Rightarrow> jsnum" where
  "Math_floor (Fin x) = Fin (of_int \<lfloor>x\<rfloor>)"
| "Math_floor x = x"

fun Math_trunc :: "jsnum \<Rightarrow> jsnum" where
  "Math_trunc (Fin x) = Fin (of_int (truncate_real x))"
| "Math_trunc x = x"

fun Math_min :: "jsnum \<Rightarrow> jsnum \<Rightarrow> jsnum" where
  "Math_min NaN y = NaN"
| "Math_min x NaN = NaN"
| "Math_min x y = (if jlt y x then y else x)"

fun Math_max :: "jsnum \<Rightarrow> jsnum \<Rightarrow> jsnum" where
  "Math_max NaN y = NaN"
| "Math_max x NaN = NaN"
| "Math_max x y = (if jlt x y then y else x)"

fun Math_sign :: "jsnum \<Rightarrow> jsnum" where
  "Math_sign NaN = NaN"
| "Math_sign PosInf = Fin 1"
| "Math_sign NegInf = Fin (- 1)"
| "Math_sign (Fin x) = Fin (sgn x)"

fun jneg :: "jsnum \<Rightarrow> jsnum" where
  "jneg NaN = NaN"
| "jneg PosInf = NegInf"
| "jneg NegInf = PosInf"
| "jneg (Fin x) = Fin (- x)"

subsection \<open>The 32-bit integer operators\<close>

text \<open>
  The operators \<^verbatim>\<open><<\<close>, \<^verbatim>\<open>>>\<close> and \<^verbatim>\<open>&\<close> convert their operands to signed 32-bit
  integers (NaN and the infinities to 0, other numbers truncated and wrapped) and give a
  signed 32-bit integer back.
\<close>

fun ToInt32 :: "jsnum \<Rightarrow> 32 word" where
  "ToInt32 (Fin x) = word_of_int (truncate_real x)"
| "ToInt32 x = 0"

definition ofInt32 :: "32 word \<Rightarrow> jsnum" where
  "ofInt32 w = Fin (of_int (sint w))"

definition shiftLeft :: "jsnum \<Rightarrow> nat \<Rightarrow> jsnum" where
  "shiftLeft x n = ofInt32 (push_bit (n mod 32) (ToInt32 x))"

definition shiftRight :: "jsnum \<Rightarrow> nat \<Rightarrow> jsnum" where
  "shiftRight x n = ofInt32 (signed_drop_bit (n mod 32) (ToInt32 x))"

definition bitAnd :: "jsnum \<Rightarrow> jsnum \<Rightarrow> jsnum" where
  "bitAnd x y = ofInt32 (ToInt32 x AND ToInt32 y)"

subsection \<open>Strings\<close>

text \<open>White space and line terminators, as \<^verbatim>\<open>trim\<close> and the numeric parsers strip them.\<close>

definition isStrWhiteSpace :: "char \<Rightarrow> bool" where
  "isStrWhiteSpace c = (of_char c \<in> {9, 10, 11, 12, 13, 32, 160 :: nat})"

definition trimStart :: "string \<Rightarrow> string" where
  "trimStart s = dropWhile isStrWhiteSpace s"

definition trimEnd :: "string \<Rightarrow> string" where
  "trimEnd s = rev (dropWhile isStrWhiteSpace (rev s))"

definition trim :: "string \<Rightarrow> string" where
  "trim s = trimEnd (trimStart s)"

text \<open>Lower case: the letters A to Z, and the capital letters of the range 192 to 222.\<close>

definition lowerChar :: "char \<Rightarrow> char" where
  "lowerChar c =
     (let n = of_char c :: nat
      in if (65 \<le> n \<and> n \<le> 90) \<or> (192 \<le> n \<and> n \<le> 222 \<and> n \<noteq> 215)
         then char_of (n + 32) else c)"

definition toLowerCase :: "string \<Rightarrow> string" where
  "toLowerCase s = map lowerChar s"

fun indexOf :: "string \<Rightarrow> char \<Rightarrow> int" where
  "indexOf [] c = - 1"
| "indexOf (x # xs) c =
     (if x = c then 0 else (let i = indexOf xs c in if i < 0 then - 1 else i + 1))"

subsection \<open>Reading numbers from strings\<close>

definition digitValue :: "char \<Rightarrow> nat option" where
  "digitValue c =
     (let n = of_char c :: nat
      in if 48 \<le> n \<and> n \<le> 57 then Some (n - 48)
         else if 97 \<le> n \<and> n \<le> 122 then Some (n - 87)
         else if 65 \<le> n \<and> n \<le> 90 then Some (n - 55)
         else None)"

definition isRadixDigit :: "nat \<Rightarrow> char \<Rightarrow> bool" where
  "isRadixDigit R c = (case digitValue c of Some d \<Rightarrow> d < R | None \<Rightarrow> False)"

definition digitsValue :: "nat \<Rightarrow> string \<Rightarrow> nat" where
  "digitsValue R ds =
     foldl (\<lambda>acc c. acc * R + (case digitValue c of Some d \<Rightarrow> d | None \<Rightarrow> 0)) 0 ds"

text \<open>
  \<^verbatim>\<open>parseInt(string, radix)\<close>: leading white space and a sign are skipped, a prefix
  \<^verbatim>\<open>0x\<close> too when the radix is 16 or absent (0), and the longest run of digits of the
  radix is read and its value rounded; NaN when there is none.
\<close>

definition parseInt :: "string \<Rightarrow> nat \<Rightarrow> jsnum" where
  "parseInt s radix =
     (let S = trimStart s;
          neg = (case S of c # t \<Rightarrow> c = CHR ''-'' | [] \<Rightarrow> False);
          S1 = (case S of c # t \<Rightarrow> if c = CHR ''+'' \<or> c = CHR ''-'' then t else S | [] \<Rightarrow> S);
          hasPrefix = ((radix = 0 \<or> radix = 16) \<and>
            (case S1 of z # x # t \<Rightarrow> z = CHR ''0'' \<and> (x = CHR ''x'' \<or> x = CHR ''X'') | _ \<Rightarrow> False));
          S2 = (if hasPrefix then drop 2 S1 else S1);
          R = (if hasPrefix then 16 else if radix = 0 then 10 else radix);
          Z = takeWhile (isRadixDigit R) S2
      in if R < 2 \<or> 36 < R \<or> Z = [] then NaN
         else roundDouble (of_int ((if neg then - 1 else 1) * int (digitsValue R Z))))"

text \<open>
  \<^verbatim>\<open>Number(string)\<close>: the grammar of numeric string literals, the value of the literal
  rounded.
\<close>

definition isDecimalDigit :: "char \<Rightarrow> bool" where
  "isDecimalDigit c = isRadixDigit 10 c"

definition signedInteger :: "string \<Rightarrow> int option" where
  "signedInteger s =
     (let neg = (case s of c # t \<Rightarrow> c = CHR ''-'' | [] \<Rightarrow> False);
          ds = (case s of c # t \<Rightarrow> if c = CHR ''+'' \<or> c = CHR ''-'' then t else s | [] \<Rightarrow> s)
      in if ds \<noteq> [] \<and> list_all isDecimalDigit ds
         then Some ((if neg then - 1 else 1) * int (digitsValue 10 ds)) else None)"

definition pow10 :: "int \<Rightarrow> real" where
  "pow10 e = (if 0 \<le> e then 10 ^ nat e else 1 / 10 ^ nat (- e))"

definition strUnsignedDecimalLiteral :: "string \<Rightarrow> jsnum" where
  "strUnsignedDecimalLiteral s =
     (if s = ''Infinity'' then PosInf
      else
        let ip = takeWhile isDecimalDigit s;
            r1 = dropWhile isDecimalDigit s;
            hasDot = (case r1 of c # t \<Rightarrow> c = CHR ''.'' | [] \<Rightarrow> False);
            fp = (if hasDot then takeWhile isDecimalDigit (tl r1) else []);
            r2 = (if hasDot then dropWhile isDecimalDigit (tl r1) else r1);
            ex = (case r2 of [] \<Rightarrow> Some 0
                  | c # t \<Rightarrow> if c = CHR ''e'' \<or> c = CHR ''E'' then signedInteger t else None)
        in if ip = [] \<and> fp = [] then NaN
           else (case ex of None \<Rightarrow> NaN
                 | Some e \<Rightarrow>
                     roundDouble
                       ((real (digitsValue 10 ip) + real (digitsValue 10 fp) / 10 ^ length fp)
                        * pow10 e)))"

definition strDecimalLiteral :: "string \<Rightarrow> jsnum" where
  "strDecimalLiteral s =
     (case s of [] \<Rightarrow> NaN
      | c # t \<Rightarrow>
          if c = CHR ''+'' then strUnsignedDecimalLiteral t
          else if c = CHR ''-'' then jneg (strUnsignedDecimalLiteral t)
          else strUnsignedDecimalLiteral s)"

definition nonDecimalIntegerLiteral :: "string \<Rightarrow> nat option" where
  "nonDecimalIntegerLiteral s =
     (case s of
        z # p # ds \<Rightarrow>
          (let R = (if p = CHR ''x'' \<or> p = CHR ''X'' then 16
                    else if p = CHR ''o'' \<or> p = CHR ''O'' then 8
                    else if p = CHR ''b'' \<or> p = CHR ''B'' then 2 else 0 :: nat)
           in if z = CHR ''0'' \<and> R \<noteq> 0 \<and> ds \<noteq> [] \<and> list_all (isRadixDigit R) ds
              then Some (digitsValue R ds) else None)
      | _ \<Rightarrow> None)"

definition StringToNumber :: "string \<Rightarrow> jsnum" where
  "StringToNumber s =
     (let t = trim s
      in if t = [] then Fin 0
         else (case nonDecimalIntegerLiteral t of
                 Some n \<Rightarrow> roundDouble (real n)
               | None \<Rightarrow> strDecimalLiteral t))"

text \<open>\<^verbatim>\<open>Number(value)\<close>.\<close>

fun jsNumber :: "jsval \<Rightarrow> jsnum" where
  "jsNumber Undefined = NaN"
| "jsNumber Null = Fin 0"
| "jsNumber (Bool b) = Fin (if b then 1 else 0)"
| "jsNumber (Num n) = n"
| "jsNumber (Str s) = StringToNumber s"

subsection \<open>Writing numbers as strings\<close>

fun showNat :: "nat \<Rightarrow> string" where
  "showNat n =
     (if n < 10 then [char_of (48 + n)] else showNat (n div 10) @ [char_of (48 + n mod 10)])"

declare showNat.simps [simp del]

text \<open>
  \<^verbatim>\<open>String(number)\<close>. An integer of magnitude up to \<open>2 ^ 53\<close> is written with its
  decimal digits. The digits of any other finite number depend on the binary format, so
  the conversion of those is the parameter \<open>fmt\<close>.
\<close>

fun NumberToString :: "(real \<Rightarrow> string) \<Rightarrow> jsnum \<Rightarrow> string" where
  "NumberToString fmt NaN = ''NaN''"
| "NumberToString fmt PosInf = ''Infinity''"
| "NumberToString fmt NegInf = ''-Infinity''"
| "NumberToString fmt (Fin x) =
     (if x = of_int \<lfloor>x\<rfloor> \<and> \<bar>x\<bar> \<le> 2 ^ 53
      then (if x < 0 then CHR ''-'' # showNat (nat (- \<lfloor>x\<rfloor>)) else showNat (nat \<lfloor>x\<rfloor>))
      else fmt x)"

text \<open>
  A formatting to put for \<open>fmt\<close> in closed examples: the digits of the integer part
  below \<open>10 ^ 21\<close>, and the text \<^verbatim>\<open>1e+21\<close> from there on, as \<open>10 ^ 21\<close> itself is
  written.
\<close>

definition exampleFormat :: "real \<Rightarrow> string" where
  "exampleFormat x =
     (if x < 0 then ''-'' else []) @
     (if \<bar>x\<bar> < 10 ^ 21 then showNat (nat \<lfloor>\<bar>x\<bar>\<rfloor>) else ''1e+21'')"

text \<open>\<^verbatim>\<open>String(value)\<close> and \<^verbatim>\<open>Boolean(value)\<close>.\<close>

fun jsString :: "(real \<Rightarrow> string) \<Rightarrow> jsval \<Rightarrow> string" where
  "jsString fmt Undefined = ''undefined''"
| "jsString fmt Null = ''null''"
| "jsString fmt (Bool b) = (if b then ''true'' else ''false'')"
| "jsString fmt (Num n) = NumberToString fmt n"
| "jsString fmt (Str s) = s"

fun jsBoolean :: "jsval \<Rightarrow> bool" where
  "jsBoolean Undefined = False"
| "jsBoolean Null = False"
| "jsBoolean (Bool b) = b"
| "jsBoolean (Num n) = (\<not> (n = NaN \<or> n = Fin 0))"
| "jsBoolean (Str s) = (s \<noteq> [])"

datatype jstype = TUndefined | TObject | TBoolean | TNumber | TString

fun typeof :: "jsval \<Rightarrow> jstype" where
  "typeof Undefined = TUndefined"
| "typeof Null = TObject"
| "typeof (Bool b) = TBoolean"
| "typeof (Num n) = TNumber"
| "typeof (Str s) = TString"

section \<open>The class Color\<close>

text \<open>
  A colour object has the properties \<^verbatim>\<open>r\<close>, \<^verbatim>\<open>g\<close>, \<^verbatim>\<open>b\<close> and, from some
  operations only, \<^verbatim>\<open>a\<close>; the fields carry a prefix here, the short names being wanted
  for variables. A parameter that may receive \<^verbatim>\<open>null\<close> has an option type, and reading
  a property of \<^verbatim>\<open>null\<close> is the error \<^const>\<open>TypeError\<close>. The operations
  \<^verbatim>\<open>decimalToHex\<close>, \<^verbatim>\<open>rgbToHex\<close> and \<^verbatim>\<open>rgbToHsv\<close> take no part in the properties
  below and are left out.
\<close>

record RGBObject =
  rgb_r :: jsnum
  rgb_g :: jsnum
  rgb_b :: jsnum
  rgb_a :: "jsnum option"

record HSVObject =
  hsv_h :: jsnum
  hsv_s :: jsnum
  hsv_v :: jsnum

definition RGB_BLACK :: RGBObject where
  "RGB_BLACK = \<lparr>rgb_r = Fin 0, rgb_g = Fin 0, rgb_b = Fin 0, rgb_a = None\<rparr>"

definition RGB_WHITE :: RGBObject where
  "RGB_WHITE = \<lparr>rgb_r = Fin 255, rgb_g = Fin 255, rgb_b = Fin 255, rgb_a = None\<rparr>"

definition decimalToRgb :: "jsnum \<Rightarrow> RGBObject" where
  "decimalToRgb decimal =
     (let a = bitAnd (shiftRight decimal 24) (Fin 255);
          r = bitAnd (shiftRight decimal 16) (Fin 255);
          g = bitAnd (shiftRight decimal 8) (Fin 255);
          b = bitAnd decimal (Fin 255)
      in \<lparr>rgb_r = r, rgb_g = g, rgb_b = b,
          rgb_a = Some (if jgt a (Fin 0) then a else Fin 255)\<rparr>)"

text \<open>
  The two regular expressions of \<^verbatim>\<open>hexToRgb\<close>. Both are anchored at both ends, start
  with an optional \<^verbatim>\<open>#\<close> and, under the flag \<^verbatim>\<open>i\<close>, their class \<^verbatim>\<open>[a-f\d]\<close>
  is a hexadecimal digit in either case. They give the captured groups, or nothing.
\<close>

definition isHexDigit :: "char \<Rightarrow> bool" where
  "isHexDigit c = isRadixDigit 16 c"

definition optionalHash :: "string \<Rightarrow> string" where
  "optionalHash s = (case s of c # t \<Rightarrow> if c = CHR ''#'' then t else s | [] \<Rightarrow> s)"

definition shorthandRegex :: "string \<Rightarrow> (char \<times> char \<times> char) option" where
  "shorthandRegex s =
     (case optionalHash s of
        [r, g, b] \<Rightarrow> if isHexDigit r \<and> isHexDigit g \<and> isHexDigit b then Some (r, g, b) else None
      | _ \<Rightarrow> None)"

definition sixDigitRegex :: "string \<Rightarrow> (string \<times> string \<times> string) option" where
  "sixDigitRegex s =
     (case optionalHash s of
        [r1, r2, g1, g2, b1, b2] \<Rightarrow>
          if list_all isHexDigit [r1, r2, g1, g2, b1, b2]
          then Some ([r1, r2], [g1, g2], [b1, b2]) else None
      | _ \<Rightarrow> None)"

definition hexToRgb :: "string \<Rightarrow> RGBObject option" where
  "hexToRgb hex =
     (let hex1 = (case shorthandRegex hex of
                    Some (r, g, b) \<Rightarrow> [r, r, g, g, b, b]
                  | None \<Rightarrow> hex);
          result = sixDigitRegex hex1
      in case result of
           Some (x, y, z) \<Rightarrow>
             Some \<lparr>rgb_r = parseInt x 16, rgb_g = parseInt y 16, rgb_b = parseInt z 16,
                   rgb_a = None\<rparr>
         | None \<Rightarrow> None)"

definition rgbToDecimal :: "RGBObject option \<Rightarrow> error + jsnum" where
  "rgbToDecimal rgb =
     (case rgb of
        None \<Rightarrow> Inl TypeError
      | Some c \<Rightarrow> Inr (jadd (jadd (shiftLeft (rgb_r c) 16) (shiftLeft (rgb_g c) 8)) (rgb_b c)))"

definition hexToDecimal :: "string \<Rightarrow> error + jsnum" where
  "hexToDecimal hex = rgbToDecimal (hexToRgb hex)"

text \<open>
  The hue as the first two statements of \<^verbatim>\<open>hsvToRgb\<close> compute it: the remainder by 360,
  and 360 added to it when it is negative.
\<close>

definition hsvHue :: "jsnum \<Rightarrow> jsnum" where
  "hsvHue hue =
     (let h = jmod hue (Fin 360)
      in if jlt h (Fin 0) then jadd h (Fin 360) else h)"

definition hsvToRgb :: "HSVObject \<Rightarrow> RGBObject" where
  "hsvToRgb hsv =
     (let h = hsvHue (hsv_h hsv);
          s = Math_max (Fin 0) (Math_min (hsv_s hsv) (Fin 1));
          v = Math_max (Fin 0) (Math_min (hsv_v hsv) (Fin 1));
          i = Math_floor (jdiv h (Fin 60));
          f = jsub (jdiv h (Fin 60)) i;
          p = jmul v (jsub (Fin 1) s);
          q = jmul v (jsub (Fin 1) (jmul s f));
          t = jmul v (jsub (Fin 1) (jmul s (jsub (Fin 1) f)));
          (r, g, b) =
            (if jeq i (Fin 1) then (q, v, p)
             else if jeq i (Fin 2) then (p, v, t)
             else if jeq i (Fin 3) then (p, q, v)
             else if jeq i (Fin 4) then (t, p, v)
             else if jeq i (Fin 5) then (v, p, q)
             else (v, t, p))
      in \<lparr>rgb_r = Math_floor (jmul r (Fin 255)),
          rgb_g = Math_floor (jmul g (Fin 255)),
          rgb_b = Math_floor (jmul b (Fin 255)),
          rgb_a = None\<rparr>)"

definition mixRgb :: "RGBObject \<Rightarrow> RGBObject \<Rightarrow> jsnum \<Rightarrow> RGBObject" where
  "mixRgb rgb0 rgb1 fraction1 =
     (if jle fraction1 (Fin 0) then rgb0
      else if jge fraction1 (Fin 1) then rgb1
      else
        let fraction0 = jsub (Fin 1) fraction1
        in \<lparr>rgb_r = jadd (jmul fraction0 (rgb_r rgb0)) (jmul fraction1 (rgb_r rgb1)),
            rgb_g = jadd (jmul fraction0 (rgb_g rgb0)) (jmul fraction1 (rgb_g rgb1)),
            rgb_b = jadd (jmul fraction0 (rgb_b rgb0)) (jmul fraction1 (rgb_b rgb1)),
            rgb_a = None\<rparr>)"

section \<open>The class Cast\<close>

fun toNumber :: "jsval \<Rightarrow> jsnum" where
  "toNumber (Num value) = (if isNaN value then Fin 0 else value)"
| "toNumber value = (let n = jsNumber value in if isNaN n then Fin 0 else n)"

fun toBoolean :: "jsval \<Rightarrow> bool" where
  "toBoolean (Bool value) = value"
| "toBoolean (Str value) =
     (if value = [] \<or> value = ''0'' \<or> toLowerCase value = ''false'' then False else True)"
| "toBoolean value = jsBoolean value"

definition toString :: "(real \<Rightarrow> string) \<Rightarrow> jsval \<Rightarrow> string" where
  "toString fmt value = jsString fmt value"

definition toRgbColorObject :: "jsval \<Rightarrow> RGBObject" where
  "toRgbColorObject value =
     (case value of
        Str s \<Rightarrow>
          if take 1 s = ''#''
          then (case hexToRgb s of
                  Some color \<Rightarrow> color
                | None \<Rightarrow> \<lparr>rgb_r = Fin 0, rgb_g = Fin 0, rgb_b = Fin 0, rgb_a = Some (Fin 255)\<rparr>)
          else decimalToRgb (toNumber value)
      | _ \<Rightarrow> decimalToRgb (toNumber value))"

definition toRgbColorList :: "jsval \<Rightarrow> jsnum list" where
  "toRgbColorList value =
     (let color = toRgbColorObject value in [rgb_r color, rgb_g color, rgb_b color])"

definition isWhiteSpace :: "jsval \<Rightarrow> bool" where
  "isWhiteSpace val =
     (val = Null \<or> (case val of Str s \<Rightarrow> length (trim s) = 0 | _ \<Rightarrow> False))"

definition compare :: "(real \<Rightarrow> string) \<Rightarrow> jsval \<Rightarrow> jsval \<Rightarrow> jsnum" where
  "compare fmt v1 v2 =
     (let n1 = jsNumber v1;
          n2 = jsNumber v2;
          (n1, n2) =
            (if jeq n1 (Fin 0) \<and> isWhiteSpace v1 then (NaN, n2)
             else if jeq n2 (Fin 0) \<and> isWhiteSpace v2 then (n1, NaN)
             else (n1, n2))
      in if isNaN n1 \<or> isNaN n2
         then
           (let s1 = toLowerCase (jsString fmt v1);
                s2 = toLowerCase (jsString fmt v2)
            in if s1 < s2 then Fin (- 1) else if s1 > s2 then Fin 1 else Fin 0)
         else if (jeq n1 PosInf \<and> jeq n2 PosInf) \<or> (jeq n1 NegInf \<and> jeq n2 NegInf) then Fin 0
         else jsub n1 n2)"

fun isInt :: "(real \<Rightarrow> string) \<Rightarrow> jsval \<Rightarrow> bool" where
  "isInt fmt (Num val) =
     (if isNaN val then True else jeq val (parseInt (NumberToString fmt val) 10))"
| "isInt fmt (Bool val) = True"
| "isInt fmt (Str val) = (indexOf val CHR ''.'' < 0)"
| "isInt fmt val = False"

definition LIST_INVALID :: jsval where
  "LIST_INVALID = Str ''INVALID''"

definition LIST_ALL :: jsval where
  "LIST_ALL = Str ''ALL''"

text \<open>
  \<^verbatim>\<open>toListIndex\<close> draws from \<^verbatim>\<open>Math.random()\<close>; the number drawn, at least 0 and
  below 1, is the parameter \<open>random\<close>.
\<close>

definition toListIndex :: "real \<Rightarrow> jsval \<Rightarrow> jsnum \<Rightarrow> bool \<Rightarrow> jsval" where
  "toListIndex random index len acceptAll =
     (if typeof index \<noteq> TNumber \<and> index = Str ''all''
      then (if acceptAll then LIST_ALL else LIST_INVALID)
      else if typeof index \<noteq> TNumber \<and> index = Str ''last''
      then (if jgt len (Fin 0) then Num len else LIST_INVALID)
      else if typeof index \<noteq> TNumber \<and> (index = Str ''random'' \<or> index = Str ''any'')
      then (if jgt len (Fin 0)
            then Num (jadd (Fin 1) (Math_floor (jmul (Fin random) len)))
            else LIST_INVALID)
      else
        let index = Math_floor (toNumber index)
        in if jlt index (Fin 1) \<or> jgt index len then LIST_INVALID else Num index)"

section \<open>Notions of the specification\<close>

text \<open>
  The specification speaks of colour components that are integers between 0 and 255, and
  describes \<^verbatim>\<open>hsvToRgb\<close> in words. The definitions of this section follow those words,
  to be compared with the code's.
\<close>

definition isByte :: "jsnum \<Rightarrow> bool" where
  "isByte n = (case n of Fin x \<Rightarrow> x = of_int \<lfloor>x\<rfloor> \<and> 0 \<le> x \<and> x \<le> 255 | _ \<Rightarrow> False)"

text \<open>The range that the components of a mixed colour keep to: from 0 to below 256.\<close>

definition inChannelRange :: "jsnum \<Rightarrow> bool" where
  "inChannelRange n = (case n of Fin x \<Rightarrow> 0 \<le> x \<and> x < 256 | _ \<Rightarrow> False)"

definition clamp01 :: "real \<Rightarrow> real" where
  "clamp01 x = max 0 (min x 1)"

text \<open>
  The specification's \<^verbatim>\<open>hsvToRgb\<close>: the hue reduced by the remainder and the addition of
  360, saturation and value clamped, the sector \<open>\<lfloor>h / 60\<rfloor> mod 6\<close> choosing one of six
  arrangements of \<open>v\<close>, \<open>t\<close>, \<open>p\<close>, \<open>q\<close>, and each channel the floor of 255 times its
  value.
\<close>

definition sectorIndex :: "jsnum \<Rightarrow> nat" where
  "sectorIndex x = (case Math_floor x of Fin i \<Rightarrow> nat (\<lfloor>i\<rfloor> mod 6) | _ \<Rightarrow> 0)"

definition hsvToRgb_spec :: "jsnum \<Rightarrow> jsnum \<Rightarrow> jsnum \<Rightarrow> RGBObject" where
  "hsvToRgb_spec hue sat val =
     (let h = hsvHue hue;
          s = Math_max (Fin 0) (Math_min sat (Fin 1));
          v = Math_max (Fin 0) (Math_min val (Fin 1));
          f = jsub (jdiv h (Fin 60)) (Math_floor (jdiv h (Fin 60)));
          p = jmul v (jsub (Fin 1) s);
          q = jmul v (jsub (Fin 1) (jmul s f));
          t = jmul v (jsub (Fin 1) (jmul s (jsub (Fin 1) f)));
          (r, g, b) =
            [(v, t, p), (q, v, p), (p, v, t), (p, q, v), (t, p, v), (v, p, q)]
              ! sectorIndex (jdiv h (Fin 60))
      in \<lparr>rgb_r = Math_floor (jmul r (Fin 255)),
          rgb_g = Math_floor (jmul g (Fin 255)),
          rgb_b = Math_floor (jmul b (Fin 255)),
          rgb_a = None\<rparr>)"

section \<open>Properties of rounding\<close>

lemma binade_bounds:
  assumes "x \<noteq> 0"
  shows "2 powi binade x \<le> \<bar>x\<bar>" "\<bar>x\<bar> < 2 powi (binade x + 1)"
proof -
  have "2 powi binade x \<le> \<bar>x\<bar> \<and> \<bar>x\<bar> < 2 powi (binade x + 1)"
  proof (cases "1 \<le> \<bar>x\<bar>")
    case True
    define m where "m = \<lfloor>\<bar>x\<bar>\<rfloor>"
    have m: "1 \<le> m" "of_int m \<le> \<bar>x\<bar>" "\<bar>x\<bar> < of_int m + 1"
      using True unfolding m_def by linarith+
    then have pos: "0 < m" by simp
    have L: "1 \<le> bitlen m" using pos bitlen_eq_zero_iff [of m] bitlen_nonneg [of m] by linarith
    have b: "binade x = bitlen m - 1" using True by (simp add: binade_def m_def)
    have lo: "(2::int) ^ nat (bitlen m - 1) \<le> m" and hi: "m < 2 ^ nat (bitlen m)"
      using bitlen_bounds [OF pos] by simp_all
    have "(2::real) powi (bitlen m - 1) = 2 ^ nat (bitlen m - 1)"
      using L by (simp add: power_int_def)
    also have "\<dots> = of_int (2 ^ nat (bitlen m - 1))" by simp
    also have "\<dots> \<le> of_int m" using lo by (simp only: of_int_le_iff)
    finally have l: "2 powi (bitlen m - 1) \<le> \<bar>x\<bar>" using m(2) by linarith
    have "m + 1 \<le> 2 ^ nat (bitlen m)" using hi by simp
    then have "of_int (m + 1) \<le> (of_int (2 ^ nat (bitlen m)) :: real)" by (simp only: of_int_le_iff)
    then have "of_int m + 1 \<le> (2::real) ^ nat (bitlen m)" by simp
    also have "(2::real) ^ nat (bitlen m) = 2 powi (bitlen m)"
      using L by (simp add: power_int_def)
    finally have "\<bar>x\<bar> < 2 powi (bitlen m)" using m(3) by linarith
    with l show ?thesis by (simp add: b)
  next
    case False
    then have small: "0 < \<bar>x\<bar>" "\<bar>x\<bar> < 1" using assms by simp_all
    define y where "y = 1 / \<bar>x\<bar>"
    have y: "1 < y" "\<bar>x\<bar> = 1 / y" "0 < y" using small by (simp_all add: y_def)
    define n where "n = \<lceil>y\<rceil> - 1"
    have n: "of_int n < y" "y \<le> of_int n + 1" "1 \<le> n"
      using y(1) unfolding n_def by linarith+
    then have pos: "0 < n" by simp
    have L: "1 \<le> bitlen n" using pos bitlen_eq_zero_iff [of n] bitlen_nonneg [of n] by linarith
    have b: "binade x = - bitlen n" using False by (simp add: binade_def n_def y_def)
    have lo: "(2::int) ^ nat (bitlen n - 1) \<le> n" and hi: "n < 2 ^ nat (bitlen n)"
      using bitlen_bounds [OF pos] by simp_all
    have "n + 1 \<le> 2 ^ nat (bitlen n)" using hi by simp
    then have "of_int (n + 1) \<le> (of_int (2 ^ nat (bitlen n)) :: real)" by (simp only: of_int_le_iff)
    then have "y \<le> (2::real) ^ nat (bitlen n)" using n(2) by simp
    then have "1 / (2::real) ^ nat (bitlen n) \<le> 1 / y"
      using y(3) by (simp add: frac_le)
    moreover have "(2::real) powi (- bitlen n) = 1 / 2 ^ nat (bitlen n)"
      using L by (simp add: power_int_def field_simps)
    ultimately have l: "2 powi (- bitlen n) \<le> \<bar>x\<bar>" by (simp add: y(2))
    have "(of_int (2 ^ nat (bitlen n - 1)) :: real) \<le> of_int n"
      using lo by (simp only: of_int_le_iff)
    then have "(2::real) ^ nat (bitlen n - 1) \<le> of_int n" by (simp only: of_int_power of_int_numeral)
    then have "(2::real) ^ nat (bitlen n - 1) < y" using n(1) by linarith
    then have "1 / y < 1 / (2::real) ^ nat (bitlen n - 1)"
      by (simp add: frac_less2)
    moreover have "(2::real) powi (- bitlen n + 1) = 1 / 2 ^ nat (bitlen n - 1)"
    proof -
      have "- bitlen n + 1 = - int (nat (bitlen n - 1))" using L by simp
      then show ?thesis by (simp only: power_int_minus power_int_of_nat) (simp add: field_simps)
    qed
    ultimately have "\<bar>x\<bar> < 2 powi (- bitlen n + 1)" by (simp add: y(2))
    with l show ?thesis by (simp add: b)
  qed
  then show "2 powi binade x \<le> \<bar>x\<bar>" "\<bar>x\<bar> < 2 powi (binade x + 1)" by simp_all
qed


lemma roundToEven_of_int: "roundToEven (of_int m) = m"
  by (simp add: roundToEven_def)

lemma roundToEven_ge: "of_int m \<le> x \<Longrightarrow> m \<le> roundToEven x"
proof -
  assume "of_int m \<le> x"
  then have "m \<le> \<lfloor>x\<rfloor>" by (simp add: le_floor_iff)
  then show ?thesis by (simp add: roundToEven_def Let_def)
qed

lemma roundToEven_le: "x \<le> of_int m \<Longrightarrow> roundToEven x \<le> m"
proof (cases "x = of_int \<lfloor>x\<rfloor>")
  case True
  assume "x \<le> of_int m"
  then have "\<lfloor>x\<rfloor> \<le> m" by linarith
  moreover have "roundToEven x = \<lfloor>x\<rfloor>" using True by (metis roundToEven_of_int)
  ultimately show ?thesis by simp
next
  case False
  assume le: "x \<le> of_int m"
  have "of_int \<lfloor>x\<rfloor> < x" using False by linarith
  then have "of_int \<lfloor>x\<rfloor> < (of_int m :: real)" using le by linarith
  then have "\<lfloor>x\<rfloor> < m" by (simp only: of_int_less_iff)
  then show ?thesis by (simp add: roundToEven_def Let_def)
qed

lemma roundToEven_minus: "roundToEven (- x) = - roundToEven x"
proof (cases "x = of_int \<lfloor>x\<rfloor>")
  case True
  then obtain m where "x = of_int m" ..
  then show ?thesis by (simp add: roundToEven_of_int flip: of_int_minus)
next
  case False
  define n where "n = \<lfloor>x\<rfloor>"
  define d where "d = x - of_int n"
  have d: "0 < d" "d < 1" using False unfolding d_def n_def by linarith+
  have fl: "\<lfloor>- x\<rfloor> = - n - 1" unfolding n_def using False by linarith
  have d': "- x - of_int (- n - 1) = 1 - d" by (simp add: d_def)
  have ev: "even (- n - 1) \<longleftrightarrow> odd n" by simp
  have a: "roundToEven x = (if d < 1 / 2 then n else if 1 / 2 < d then n + 1 else if even n then n else n + 1)"
    by (simp add: roundToEven_def Let_def n_def d_def)
  have b: "roundToEven (- x) = (if 1 - d < 1 / 2 then - n - 1 else if 1 / 2 < 1 - d then - n
        else if odd n then - n - 1 else - n)"
    unfolding roundToEven_def Let_def fl d' ev by simp
  show ?thesis unfolding a b using d by auto
qed

lemma binade_minus: "binade (- x) = binade x"
  by (simp add: binade_def)

lemma ulp_minus: "ulp (- x) = ulp x"
  by (simp add: ulp_def binade_minus)

lemma ulp_pos: "0 < ulp x"
  by (simp add: ulp_def)

lemma roundDouble_zero: "roundDouble 0 = Fin 0"
  by (simp add: roundDouble_def roundToEven_def)

lemma roundDouble_minus: "roundDouble (- x) = jneg (roundDouble x)"
proof (cases "x = 0")
  case True
  then show ?thesis by (simp add: roundDouble_zero)
next
  case False
  have "of_int (roundToEven (- x / ulp x)) * ulp x = - (of_int (roundToEven (x / ulp x)) * ulp x)"
    using roundToEven_minus [of "x / ulp x"] by simp
  then show ?thesis using False
    by (auto simp: roundDouble_def Let_def ulp_minus)
qed


lemma ulp_small:
  assumes "max (binade x) (- 1022) \<le> 52"
  shows "ulp x = 1 / 2 ^ nat (52 - max (binade x) (- 1022))"
proof -
  define e where "e = max (binade x) (- 1022)"
  have "e - 52 = - int (nat (52 - e))" using assms by (simp add: e_def)
  then have "(2::real) powi (e - 52) = 1 / 2 ^ nat (52 - e)"
    by (simp only: power_int_minus power_int_of_nat) (simp add: field_simps)
  then show ?thesis by (simp add: ulp_def e_def)
qed

lemma ulp_large:
  assumes "52 \<le> binade x"
  shows "ulp x = 2 ^ nat (binade x - 52)"
proof -
  have "max (binade x) (- 1022) = binade x" using assms by simp
  moreover have "(2::real) powi (binade x - 52) = 2 ^ nat (binade x - 52)"
    using assms by (simp add: power_int_def)
  ultimately show ?thesis by (simp add: ulp_def)
qed

lemma binade_nonneg:
  assumes "1 \<le> \<bar>x\<bar>"
  shows "0 \<le> binade x"
proof (rule ccontr)
  assume "\<not> 0 \<le> binade x"
  then have "binade x + 1 \<le> 0" by simp
  then have "(2::real) powi (binade x + 1) \<le> 2 powi 0"
    by (intro power_int_increasing) simp_all
  moreover have "\<bar>x\<bar> < 2 powi (binade x + 1)" using assms binade_bounds(2) [of x] by auto
  ultimately show False using assms by simp
qed

text \<open>An integer multiple of the unit in the last place bounds the rounded value.\<close>

lemma round_ge_multiple:
  assumes "of_int m * ulp x \<le> x"
  shows "of_int m * ulp x \<le> of_int (roundToEven (x / ulp x)) * ulp x"
proof -
  have "of_int m \<le> x / ulp x" using assms ulp_pos [of x] by (simp add: pos_le_divide_eq)
  then have "m \<le> roundToEven (x / ulp x)" by (rule roundToEven_ge)
  then have "(of_int m :: real) \<le> of_int (roundToEven (x / ulp x))" by (simp only: of_int_le_iff)
  then show ?thesis using ulp_pos [of x] by (simp add: mult_right_mono)
qed

lemma round_le_multiple:
  assumes "x \<le> of_int m * ulp x"
  shows "of_int (roundToEven (x / ulp x)) * ulp x \<le> of_int m * ulp x"
proof -
  have "x / ulp x \<le> of_int m" using assms ulp_pos [of x] by (simp add: pos_divide_le_eq)
  then have "roundToEven (x / ulp x) \<le> m" by (rule roundToEven_le)
  then have "(of_int (roundToEven (x / ulp x)) :: real) \<le> of_int m" by (simp only: of_int_le_iff)
  then show ?thesis using ulp_pos [of x] by (simp add: mult_right_mono)
qed

lemma int_multiple_of_ulp:
  assumes "max (binade x) (- 1022) \<le> 52"
  shows "of_int k = of_int (k * 2 ^ nat (52 - max (binade x) (- 1022))) * ulp x"
  by (simp add: ulp_small [OF assms])

lemma binade_multiple_of_ulp:
  assumes "52 \<le> binade x"
  shows "2 powi binade x = of_int (2 ^ 52) * ulp x"
proof -
  have "(2::real) powi binade x = 2 powi (52 + (binade x - 52))" by simp
  also have "\<dots> = 2 powi 52 * 2 powi (binade x - 52)"
    by (rule power_int_add) simp
  also have "(2::real) powi (binade x - 52) = ulp x"
    using assms by (simp add: ulp_def)
  finally show ?thesis by simp
qed

lemma round_pos_lower:
  assumes "0 < x" "0 \<le> k" "k \<le> 2 ^ 53" "of_int k \<le> x"
  shows "of_int k \<le> of_int (roundToEven (x / ulp x)) * ulp x"
proof (cases "max (binade x) (- 1022) \<le> 52")
  case True
  show ?thesis
    using round_ge_multiple [of "k * 2 ^ nat (52 - max (binade x) (- 1022))" x] assms(4)
    by (simp only: int_multiple_of_ulp [OF True, symmetric])
next
  case False
  then have b: "53 \<le> binade x" by simp
  then have b52: "52 \<le> binade x" by simp
  have "2 powi binade x \<le> x" using binade_bounds(1) [of x] assms(1) by simp
  then have "2 powi binade x \<le> of_int (roundToEven (x / ulp x)) * ulp x"
    using round_ge_multiple [of "2 ^ 52" x] by (simp only: binade_multiple_of_ulp [OF b52])
  moreover have "(2::real) powi 53 \<le> 2 powi binade x"
    using b by (intro power_int_increasing) simp_all
  moreover have "(of_int k :: real) \<le> of_int (2 ^ 53)" using assms(3) by (simp only: of_int_le_iff)
  ultimately show ?thesis by simp
qed

lemma round_pos_upper:
  assumes "0 < x" "x \<le> of_int k" "k \<le> 2 ^ 53"
  shows "of_int (roundToEven (x / ulp x)) * ulp x \<le> of_int k"
proof (cases "max (binade x) (- 1022) \<le> 52")
  case True
  show ?thesis
    using round_le_multiple [of x "k * 2 ^ nat (52 - max (binade x) (- 1022))"] assms(2)
    by (simp only: int_multiple_of_ulp [OF True, symmetric])
next
  case False
  then have b: "53 \<le> binade x" by simp
  then have b52: "52 \<le> binade x" by simp
  have lo: "2 powi binade x \<le> x" using binade_bounds(1) [of x] assms(1) by simp
  have "(2::real) powi 53 \<le> 2 powi binade x"
    using b by (intro power_int_increasing) simp_all
  moreover have k: "(of_int k :: real) \<le> of_int (2 ^ 53)" using assms(3) by (simp only: of_int_le_iff)
  ultimately have eq: "x = 2 powi binade x" "of_int k = x" using lo assms(2) by simp_all
  have "of_int (roundToEven (x / ulp x)) * ulp x \<le> of_int (2 ^ 52) * ulp x"
    by (rule round_le_multiple) (use eq(1) binade_multiple_of_ulp [OF b52] in simp)
  then show ?thesis using eq binade_multiple_of_ulp [OF b52] by simp
qed


lemma roundDouble_pos_upper:
  assumes "0 < x" "x \<le> of_int k" "k \<le> 2 ^ 53"
  shows "\<exists>y. roundDouble x = Fin y \<and> 0 \<le> y \<and> y \<le> of_int k"
proof -
  define y where "y = of_int (roundToEven (x / ulp x)) * ulp x"
  have up: "y \<le> of_int k" unfolding y_def using assms by (rule round_pos_upper)
  have "(0::real) = of_int 0 * ulp x" by simp
  also have "\<dots> \<le> y" unfolding y_def by (rule round_ge_multiple) (use assms(1) in simp)
  finally have lo: "0 \<le> y" .
  have "(of_int k :: real) \<le> of_int (2 ^ 53)" using assms(3) by (simp only: of_int_le_iff)
  then have "\<bar>y\<bar> < 2 ^ 1024" using up lo by simp
  then have "roundDouble x = Fin y" by (simp add: roundDouble_def Let_def y_def)
  then show ?thesis using lo up by blast
qed

lemma roundDouble_lower:
  assumes "\<bar>k\<bar> \<le> 2 ^ 53" "of_int k \<le> x"
  shows "roundDouble x = PosInf \<or> (\<exists>y. roundDouble x = Fin y \<and> of_int k \<le> y)"
proof -
  consider "0 < x" | "x = 0" | "x < 0" by linarith
  then show ?thesis
  proof cases
    case 1
    define y where "y = of_int (roundToEven (x / ulp x)) * ulp x"
    have "of_int k \<le> y"
    proof (cases "0 \<le> k")
      case True
      then show ?thesis unfolding y_def using round_pos_lower [OF 1 True] assms by simp
    next
      case False
      have "(0::real) = of_int 0 * ulp x" by simp
      also have "\<dots> \<le> y" unfolding y_def by (rule round_ge_multiple) (use 1 in simp)
      finally show ?thesis using False by simp
    qed
    then show ?thesis using 1 by (auto simp: roundDouble_def Let_def y_def)
  next
    case 2
    then show ?thesis using assms(2) by (simp add: roundDouble_zero)
  next
    case 3
    then have "0 < - x" "- x \<le> of_int (- k)" using assms(2) by simp_all
    moreover have "- k \<le> 2 ^ 53" using assms(1) by simp
    ultimately obtain y where "roundDouble (- x) = Fin y" "y \<le> of_int (- k)"
      using roundDouble_pos_upper by blast
    then have "roundDouble x = Fin (- y)" "of_int k \<le> - y"
      using roundDouble_minus [of "- x"] by simp_all
    then show ?thesis by blast
  qed
qed

lemma roundDouble_upper:
  assumes "\<bar>k\<bar> \<le> 2 ^ 53" "x \<le> of_int k"
  shows "roundDouble x = NegInf \<or> (\<exists>y. roundDouble x = Fin y \<and> y \<le> of_int k)"
proof -
  have "\<bar>- k\<bar> \<le> 2 ^ 53" "of_int (- k) \<le> - x" using assms by simp_all
  then consider "roundDouble (- x) = PosInf" | y where "roundDouble (- x) = Fin y" "of_int (- k) \<le> y"
    using roundDouble_lower by blast
  then show ?thesis
  proof cases
    case 1
    then have "roundDouble x = NegInf" using roundDouble_minus [of "- x"] by simp
    then show ?thesis ..
  next
    case 2
    then have "roundDouble x = Fin (- y)" "- y \<le> of_int k"
      using roundDouble_minus [of "- x"] by simp_all
    then show ?thesis by blast
  qed
qed

text \<open>Rounding stays between any two integers of magnitude up to \<open>2 ^ 53\<close>.\<close>

lemma roundDouble_between:
  assumes "\<bar>a\<bar> \<le> 2 ^ 53" "\<bar>b\<bar> \<le> 2 ^ 53" "of_int a \<le> x" "x \<le> of_int b"
  shows "\<exists>y. roundDouble x = Fin y \<and> of_int a \<le> y \<and> y \<le> of_int b"
  using roundDouble_lower [OF assms(1,3)] roundDouble_upper [OF assms(2,4)] by auto

lemma roundDouble_of_int:
  assumes "\<bar>k\<bar> \<le> 2 ^ 53"
  shows "roundDouble (of_int k) = Fin (of_int k)"
  using roundDouble_between [OF assms assms, of "of_int k"] by auto

lemma roundDouble_not_NaN: "roundDouble x \<noteq> NaN"
  by (simp add: roundDouble_def Let_def)

lemma roundDouble_integral:
  "roundDouble (of_int n) = PosInf \<or> roundDouble (of_int n) = NegInf
   \<or> (\<exists>k. roundDouble (of_int n) = Fin (of_int k))"
proof (cases "\<bar>n\<bar> \<le> 2 ^ 53")
  case True
  then show ?thesis using roundDouble_of_int by blast
next
  case False
  define x :: real where "x = of_int n"
  have "(of_int (2 ^ 53) :: real) < of_int \<bar>n\<bar>" using False by (simp only: of_int_less_iff)
  then have big: "2 ^ 53 < \<bar>x\<bar>" by (simp add: x_def)
  then have "x \<noteq> 0" by auto
  then have "\<bar>x\<bar> < 2 powi (binade x + 1)" by (rule binade_bounds(2))
  with big have "(2::real) powi 53 < 2 powi (binade x + 1)" by simp
  moreover have "0 \<le> binade x" using big by (intro binade_nonneg) simp
  ultimately have "53 < binade x + 1" by (intro power_int_le_imp_less_exp [of 2 53]) simp_all
  then have "52 \<le> binade x" by simp
  then have u: "ulp x = of_int (2 ^ nat (binade x - 52))" by (simp add: ulp_large)
  have "of_int (roundToEven (x / ulp x)) * ulp x
      = of_int (roundToEven (x / ulp x) * 2 ^ nat (binade x - 52))"
    unfolding u by simp
  then show ?thesis
    unfolding x_def [symmetric] by (auto simp: roundDouble_def Let_def simp del: of_int_mult of_int_power)
qed

text \<open>Rounding a given number: its binade, and the multiple of the unit in the last place nearest to it.\<close>

lemma binade_unique:
  assumes "2 powi e \<le> \<bar>x\<bar>" "\<bar>x\<bar> < 2 powi (e + 1)"
  shows "binade x = e"
proof -
  have "(0::real) < 2 powi e" by simp
  then have "0 < \<bar>x\<bar>" using assms(1) by linarith
  then have nz: "x \<noteq> 0" by simp
  have "(2::real) powi e < 2 powi (binade x + 1)"
    using assms(1) binade_bounds(2) [OF nz] by linarith
  moreover have "binade x + 1 \<le> e \<Longrightarrow> (2::real) powi (binade x + 1) \<le> 2 powi e"
    by (rule power_int_increasing) simp_all
  ultimately have a: "e < binade x + 1" by fastforce
  have "(2::real) powi binade x < 2 powi (e + 1)"
    using assms(2) binade_bounds(1) [OF nz] by linarith
  moreover have "e + 1 \<le> binade x \<Longrightarrow> (2::real) powi (e + 1) \<le> 2 powi binade x"
    by (rule power_int_increasing) simp_all
  ultimately have "binade x < e + 1" by fastforce
  with a show ?thesis by simp
qed

lemma roundToEven_near:
  assumes "\<bar>x - of_int m\<bar> < 1 / 2"
  shows "roundToEven x = m"
proof -
  consider "\<lfloor>x\<rfloor> = m" | "\<lfloor>x\<rfloor> = m - 1" using assms by linarith
  then show ?thesis
  proof cases
    case 1
    then have "x - of_int \<lfloor>x\<rfloor> < 1 / 2" using assms by linarith
    then show ?thesis using 1 by (simp add: roundToEven_def Let_def)
  next
    case 2
    then have "(of_int \<lfloor>x\<rfloor> :: real) = of_int m - 1" by simp
    then have "1 / 2 < x - of_int \<lfloor>x\<rfloor>" using assms by linarith
    then show ?thesis using 2 by (simp add: roundToEven_def Let_def)
  qed
qed

lemma roundDouble_near:
  assumes "2 powi e \<le> \<bar>x\<bar>" "\<bar>x\<bar> < 2 powi (e + 1)" "- 1022 \<le> e" "e \<le> 1022"
    and "\<bar>x / 2 powi (e - 52) - of_int m\<bar> < 1 / 2"
  shows "roundDouble x = Fin (of_int m * 2 powi (e - 52))"
proof -
  define u :: real where "u = 2 powi (e - 52)"
  have u: "0 < u" by (simp add: u_def)
  have b: "binade x = e" using assms(1,2) by (rule binade_unique)
  have ulp: "ulp x = u" using assms(3) by (simp add: ulp_def b u_def max_def)
  have r: "roundToEven (x / u) = m" using assms(5) unfolding u_def by (rule roundToEven_near)
  have "\<bar>x / u\<bar> < 2 powi (e + 1) / u" using assms(2) u by (simp add: divide_strict_right_mono)
  also have "2 powi (e + 1) / u = 2 powi (e + 1 - (e - 52))"
    unfolding u_def by (subst power_int_diff) simp_all
  also have "\<dots> = 2 ^ 53" by simp
  finally have "\<bar>x / u\<bar> < 2 ^ 53" .
  then have "\<bar>of_int m :: real\<bar> < 2 ^ 53 + 1 / 2" using assms(5) unfolding u_def by linarith
  then have "\<bar>of_int m :: real\<bar> < of_int (2 ^ 53 + 1)" by simp
  then have "\<bar>m\<bar> < 2 ^ 53 + 1" by (simp only: of_int_less_iff flip: of_int_abs)
  then have "\<bar>m\<bar> \<le> 2 ^ 53" by simp
  then have "\<bar>of_int m :: real\<bar> \<le> of_int (2 ^ 53)" by (simp only: of_int_le_iff flip: of_int_abs)
  then have "\<bar>of_int m * u\<bar> \<le> 2 ^ 53 * u" using u by (simp add: abs_mult)
  also have "2 ^ 53 * u = 2 powi 53 * 2 powi (e - 52)" by (simp add: u_def)
  also have "\<dots> = 2 powi (53 + (e - 52))" by (subst power_int_add) simp_all
  also have "\<dots> \<le> 2 powi 1023" using assms(4) by (intro power_int_increasing) simp_all
  also have "\<dots> < (2::real) ^ 1024" by simp
  finally have "\<bar>of_int m * u\<bar> < 2 ^ 1024" .
  then show ?thesis by (simp add: roundDouble_def Let_def ulp r u_def [symmetric])
qed

text \<open>The error of rounding, and rounding within the unit interval.\<close>

lemma roundToEven_error: "\<bar>of_int (roundToEven x) - x\<bar> \<le> 1 / 2"
proof -
  have "of_int \<lfloor>x\<rfloor> \<le> x" "x < of_int \<lfloor>x\<rfloor> + 1" by linarith+
  then show ?thesis by (auto simp: roundToEven_def Let_def)
qed

lemma roundDouble_error:
  assumes "\<bar>x\<bar> < 2 powi e" "- 1021 \<le> e" "e \<le> 1023"
  shows "\<exists>y. roundDouble x = Fin y \<and> \<bar>y - x\<bar> \<le> 2 powi (e - 54)"
proof (cases "x = 0")
  case True
  then show ?thesis by (simp add: roundDouble_zero)
next
  case False
  define u where "u = ulp x"
  define y where "y = of_int (roundToEven (x / u)) * u"
  have u: "0 < u" by (simp add: u_def ulp_pos)
  have "(2::real) powi binade x < 2 powi e"
    using binade_bounds(1) [OF False] assms(1) by linarith
  moreover have "e \<le> binade x \<Longrightarrow> (2::real) powi e \<le> 2 powi binade x"
    by (rule power_int_increasing) simp_all
  ultimately have "binade x < e" by fastforce
  then have "max (binade x) (- 1022) - 52 \<le> e - 53" using assms(2) by simp
  then have ule: "u \<le> 2 powi (e - 53)"
    unfolding u_def ulp_def by (intro power_int_increasing) simp_all
  have "y - x = (of_int (roundToEven (x / u)) - x / u) * u"
    using u by (simp add: y_def field_simps)
  then have "\<bar>y - x\<bar> = \<bar>of_int (roundToEven (x / u)) - x / u\<bar> * u"
    using u by (simp add: abs_mult)
  also have "\<dots> \<le> 1 / 2 * u"
    using roundToEven_error [of "x / u"] u by (intro mult_right_mono) simp_all
  also have "\<dots> \<le> 1 / 2 * 2 powi (e - 53)" using ule by simp
  also have "\<dots> = 2 powi (e - 54)"
  proof -
    have "(2::real) powi (e - 53) = 2 powi (1 + (e - 54))" by simp
    also have "\<dots> = 2 * 2 powi (e - 54)" by (subst power_int_add) simp_all
    finally show ?thesis by simp
  qed
  finally have err: "\<bar>y - x\<bar> \<le> 2 powi (e - 54)" .
  have "(2::real) powi (e - 54) \<le> 2 powi e" by (intro power_int_increasing) simp_all
  then have "\<bar>y\<bar> < 2 * 2 powi e" using err assms(1) by linarith
  also have "2 * (2::real) powi e = 2 powi (1 + e)" by (subst power_int_add) simp_all
  also have "\<dots> \<le> 2 powi 1024" using assms(3) by (intro power_int_increasing) simp_all
  finally have "\<bar>y\<bar> < 2 ^ 1024" by simp
  then have "roundDouble x = Fin y" by (simp add: roundDouble_def Let_def y_def u_def)
  with err show ?thesis by blast
qed

lemma roundDouble_numeral:
  "\<bar>numeral n :: int\<bar> \<le> 2 ^ 53 \<Longrightarrow> roundDouble (numeral n) = Fin (numeral n)"
  using roundDouble_of_int [of "numeral n"] by simp

lemma roundDouble_one: "roundDouble 1 = Fin 1"
  using roundDouble_of_int [of 1] by simp

lemma roundDouble_unit:
  assumes "0 \<le> x" "x \<le> 1"
  shows "\<exists>y. roundDouble x = Fin y \<and> 0 \<le> y \<and> y \<le> 1"
  using roundDouble_between [of 0 1 x] assms by simp


section \<open>Properties of the builtin string operations\<close>

lemma trim_empty_iff: "trim s = [] \<longleftrightarrow> list_all isStrWhiteSpace s"
proof
  assume "trim s = []"
  then have all: "\<forall>x\<in>set (dropWhile isStrWhiteSpace s). isStrWhiteSpace x"
    by (simp add: trim_def trimEnd_def trimStart_def)
  have "dropWhile isStrWhiteSpace s = []"
  proof (rule ccontr)
    assume ne: "dropWhile isStrWhiteSpace s \<noteq> []"
    then have "\<not> isStrWhiteSpace (hd (dropWhile isStrWhiteSpace s))"
      by (rule hd_dropWhile)
    with all ne show False by (meson hd_in_set)
  qed
  then show "list_all isStrWhiteSpace s"
    by (simp add: list_all_iff)
next
  assume "list_all isStrWhiteSpace s"
  then show "trim s = []"
    by (auto simp: trim_def trimEnd_def trimStart_def list_all_iff dest: set_dropWhileD)
qed

section \<open>Cast.isWhiteSpace\<close>

text \<open>
  Claim C9, as the code has it: \<^verbatim>\<open>isWhiteSpace\<close> is true for \<^verbatim>\<open>null\<close> and for a
  string that trims to the empty string, which is a string of white space characters only;
  it is false for \<^verbatim>\<open>undefined\<close>, for every number and for every boolean.
\<close>

theorem isWhiteSpace_cases:
  "isWhiteSpace Null \<and> \<not> isWhiteSpace Undefined
   \<and> isWhiteSpace (Str s) = (trim s = [])
   \<and> isWhiteSpace (Str s) = list_all isStrWhiteSpace s
   \<and> \<not> isWhiteSpace (Num n) \<and> \<not> isWhiteSpace (Bool b)"
  by (simp add: isWhiteSpace_def trim_empty_iff)

text \<open>
  Claim C9 as stated asks for true at \<^verbatim>\<open>undefined\<close> too; the strict comparison with
  \<^verbatim>\<open>null\<close> gives false there.
\<close>

theorem isWhiteSpace_undefined_false: "isWhiteSpace Undefined = False"
  by (simp add: isWhiteSpace_def)

section \<open>Cast.compare\<close>

lemma jeq_iff: "jeq x y \<longleftrightarrow> x = y \<and> x \<noteq> NaN"
  by (cases x; cases y) auto

text \<open>
  The \<^verbatim>\<open>else if\<close> of \<^verbatim>\<open>compare\<close> rewrites at most one side, but when it skips the
  second side the first one is NaN already, so both sides may be read as adjusted.
\<close>

lemma compare_both_adjusted:
  "compare fmt v1 v2 =
     (let n1 = (if jsNumber v1 = Fin 0 \<and> isWhiteSpace v1 then NaN else jsNumber v1);
          n2 = (if jsNumber v2 = Fin 0 \<and> isWhiteSpace v2 then NaN else jsNumber v2)
      in if n1 = NaN \<or> n2 = NaN
         then (if toLowerCase (jsString fmt v1) < toLowerCase (jsString fmt v2) then Fin (- 1)
               else if toLowerCase (jsString fmt v2) < toLowerCase (jsString fmt v1) then Fin 1
               else Fin 0)
         else if (n1 = PosInf \<and> n2 = PosInf) \<or> (n1 = NegInf \<and> n2 = NegInf) then Fin 0
         else jsub n1 n2)"
  by (simp add: compare_def Let_def isNaN_def jeq_iff)

lemma compare_empty_string_zero: "compare fmt (Str []) (Num (Fin 0)) = Fin (- 1)"
  by (simp add: compare_def Let_def isNaN_def isWhiteSpace_def trim_def trimEnd_def trimStart_def
      StringToNumber_def toLowerCase_def showNat.simps lowerChar_def)

text \<open>Case folding, and comparisons that it decides.\<close>

lemma lowerChar_cases:
  "lowerChar c =
     (if (CHR ''A'' \<le> c \<and> c \<le> CHR ''Z'')
         \<or> (CHR 0xC0 \<le> c \<and> c \<le> CHR 0xDE \<and> c \<noteq> CHR 0xD7)
      then char_of (of_char c + 32 :: nat) else c)"
proof -
  have "(of_char (CHR 0xD7) :: nat) = 215" by simp
  then have "c \<noteq> CHR 0xD7 \<longleftrightarrow> (of_char c :: nat) \<noteq> 215" by (metis of_char_eq_iff)
  then show ?thesis
    by (simp add: lowerChar_def Let_def less_eq_char_def)
qed

lemma toLowerCase_example: "toLowerCase ''Hello World'' = ''hello world''"
  by code_simp

lemma compare_case_examples:
  "compare fmt (Str ''A'') (Str ''a'') = Fin 0"
  "compare fmt (Str ''apple'') (Str ''Banana'') = Fin (- 1)"
  "compare fmt (Str ''banana'') (Str ''APPLE'') = Fin 1"
  by code_simp+

lemma compare_infinities:
  "compare fmt (Num PosInf) (Num PosInf) = Fin 0"
  "compare fmt (Num NegInf) (Num NegInf) = Fin 0"
  by (simp_all add: compare_def Let_def isNaN_def isWhiteSpace_def)

text \<open>
  Claim C1: with each side coerced by \<^verbatim>\<open>Number\<close> and replaced by NaN when it is zero
  and white space, \<^verbatim>\<open>compare\<close> gives -1, 0 or 1 by the order of the two strings in lower
  case when a side is NaN, 0 for two infinities of the same sign, and the difference of the
  two numbers otherwise. Lower case turns each of the letters A to Z, and each capital letter
  of the range 192 to 222, into the letter 32 places further and leaves every other character,
  so \<^verbatim>\<open>"A"\<close> equals \<^verbatim>\<open>"a"\<close> and \<^verbatim>\<open>"apple"\<close> comes before \<^verbatim>\<open>"Banana"\<close>.
  \<^verbatim>\<open>compare("", 0)\<close> is -1, not 0, and \<^verbatim>\<open>compare(Infinity, Infinity)\<close> is 0.
\<close>

theorem compare_cases:
  "compare fmt v1 v2 =
     (let n1 = (if jsNumber v1 = Fin 0 \<and> isWhiteSpace v1 then NaN else jsNumber v1);
          n2 = (if jsNumber v2 = Fin 0 \<and> isWhiteSpace v2 then NaN else jsNumber v2)
      in if n1 = NaN \<or> n2 = NaN
         then (if toLowerCase (jsString fmt v1) < toLowerCase (jsString fmt v2) then Fin (- 1)
               else if toLowerCase (jsString fmt v1) = toLowerCase (jsString fmt v2) then Fin 0
               else Fin 1)
         else if (n1 = PosInf \<and> n2 = PosInf) \<or> (n1 = NegInf \<and> n2 = NegInf) then Fin 0
         else jsub n1 n2)
   \<and> toLowerCase s = map lowerChar s
   \<and> lowerChar c =
       (if (CHR ''A'' \<le> c \<and> c \<le> CHR ''Z'')
           \<or> (CHR 0xC0 \<le> c \<and> c \<le> CHR 0xDE \<and> c \<noteq> CHR 0xD7)
        then char_of (of_char c + 32 :: nat) else c)
   \<and> toLowerCase ''Hello World'' = ''hello world''
   \<and> compare fmt (Str ''A'') (Str ''a'') = Fin 0
   \<and> compare fmt (Str ''apple'') (Str ''Banana'') = Fin (- 1)
   \<and> compare fmt (Str ''banana'') (Str ''APPLE'') = Fin 1
   \<and> compare fmt (Str []) (Num (Fin 0)) = Fin (- 1)
   \<and> compare fmt (Str []) (Num (Fin 0)) \<noteq> Fin 0
   \<and> compare fmt (Num PosInf) (Num PosInf) = Fin 0
   \<and> compare fmt (Num NegInf) (Num NegInf) = Fin 0"
proof -
  have "compare fmt v1 v2 =
     (let n1 = (if jsNumber v1 = Fin 0 \<and> isWhiteSpace v1 then NaN else jsNumber v1);
          n2 = (if jsNumber v2 = Fin 0 \<and> isWhiteSpace v2 then NaN else jsNumber v2)
      in if n1 = NaN \<or> n2 = NaN
         then (if toLowerCase (jsString fmt v1) < toLowerCase (jsString fmt v2) then Fin (- 1)
               else if toLowerCase (jsString fmt v1) = toLowerCase (jsString fmt v2) then Fin 0
               else Fin 1)
         else if (n1 = PosInf \<and> n2 = PosInf) \<or> (n1 = NegInf \<and> n2 = NegInf) then Fin 0
         else jsub n1 n2)"
    unfolding compare_both_adjusted Let_def by auto
  moreover have "toLowerCase s = map lowerChar s" by (simp add: toLowerCase_def)
  ultimately show ?thesis
    using lowerChar_cases [of c]
    by (simp only: compare_empty_string_zero compare_infinities compare_case_examples
        toLowerCase_example) simp
qed

lemma Math_sign_jneg: "Math_sign (jneg x) = jneg (Math_sign x)"
  by (cases x) (simp_all add: sgn_if)

lemma jneg_jneg: "jneg (jneg x) = x"
  by (cases x) simp_all

text \<open>The rounded difference changes sign with the order of its operands.\<close>

lemma jsub_swap: "jsub (Fin y) (Fin x) = jneg (jsub (Fin x) (Fin y))"
  using roundDouble_minus [of "x - y"] by simp

lemma jsub_sign:
  assumes "x \<noteq> NaN" "y \<noteq> NaN" "\<not> (x = PosInf \<and> y = PosInf)" "\<not> (x = NegInf \<and> y = NegInf)"
  shows "Math_sign (jsub x y) = jneg (Math_sign (jsub y x)) \<and> jsub x y \<noteq> NaN"
proof (cases x; cases y)
  fix a b
  assume xy: "x = Fin a" "y = Fin b"
  have "Math_sign (jsub (Fin a) (Fin b)) = jneg (Math_sign (jsub (Fin b) (Fin a)))"
    by (simp only: jsub_swap [of b a] Math_sign_jneg jneg_jneg)
  moreover have "jsub (Fin a) (Fin b) \<noteq> NaN" by (simp add: roundDouble_not_NaN)
  ultimately show ?thesis by (simp only: xy) simp
qed (use assms in auto)

text \<open>
  Claim C10: the sign of \<^verbatim>\<open>compare(v1, v2)\<close> is the negation of the sign of
  \<^verbatim>\<open>compare(v2, v1)\<close>, for all values, and the result is never NaN.
\<close>

theorem compare_sign_antisymmetric:
  "Math_sign (compare fmt v1 v2) = jneg (Math_sign (compare fmt v2 v1))
   \<and> compare fmt v1 v2 \<noteq> NaN"
  unfolding compare_both_adjusted Let_def
  using jsub_sign [of "jsNumber v1" "jsNumber v2"]
  by (auto simp: sgn_if)

section \<open>Cast.toListIndex\<close>

lemma toNumber_not_NaN: "toNumber v \<noteq> NaN"
  by (cases v) (auto simp: isNaN_def Let_def)

lemma toListIndex_all:
  "toListIndex random (Str ''all'') len acceptAll = (if acceptAll then LIST_ALL else LIST_INVALID)"
  by (simp add: toListIndex_def)

lemma toListIndex_last:
  "toListIndex random (Str ''last'') (Fin (real n)) acceptAll =
     (if 0 < n then Num (Fin (real n)) else LIST_INVALID)"
  by (simp add: toListIndex_def jgt_def)

lemma toListIndex_other:
  assumes "index \<notin> {Str ''all'', Str ''last'', Str ''random'', Str ''any''}"
  shows "toListIndex random index (Fin (real n)) acceptAll =
     (case toNumber index of
        Fin x \<Rightarrow> if 1 \<le> \<lfloor>x\<rfloor> \<and> \<lfloor>x\<rfloor> \<le> int n then Num (Fin (of_int \<lfloor>x\<rfloor>)) else LIST_INVALID
      | _ \<Rightarrow> LIST_INVALID)"
proof -
  have "toListIndex random index (Fin (real n)) acceptAll =
      (let i = Math_floor (toNumber index)
       in if jlt i (Fin 1) \<or> jgt i (Fin (real n)) then LIST_INVALID else Num i)"
    using assms by (simp add: toListIndex_def)
  also have "\<dots> = (case toNumber index of
        Fin x \<Rightarrow> if 1 \<le> \<lfloor>x\<rfloor> \<and> \<lfloor>x\<rfloor> \<le> int n then Num (Fin (of_int \<lfloor>x\<rfloor>)) else LIST_INVALID
      | _ \<Rightarrow> LIST_INVALID)"
  proof (cases "toNumber index")
    case NaN
    then show ?thesis using toNumber_not_NaN by simp
  next
    case PosInf
    then show ?thesis by (simp add: jgt_def)
  next
    case NegInf
    then show ?thesis by (simp add: jgt_def)
  next
    case (Fin x)
    have below: "real_of_int \<lfloor>x\<rfloor> < 1 \<longleftrightarrow> \<not> 1 \<le> \<lfloor>x\<rfloor>" by linarith
    have above: "real n < real_of_int \<lfloor>x\<rfloor> \<longleftrightarrow> \<not> \<lfloor>x\<rfloor> \<le> int n"
      by (metis not_less of_int_le_iff of_int_of_nat_eq)
    show ?thesis using Fin by (auto simp: jgt_def Let_def below above)
  qed
  finally show ?thesis .
qed

lemma toListIndex_examples:
  "toListIndex random (Num (Fin (39 / 10))) (Fin 5) False = Num (Fin 3)"
  "toListIndex random (Num (Fin 0)) (Fin 5) False = LIST_INVALID"
  by (simp_all add: toListIndex_def jgt_def isNaN_def)

lemma toNumber_string_3: "toNumber (Str ''3'') = Fin 3"
proof -
  have "StringToNumber ''3'' = roundDouble (of_int 3)"
    by (simp add: StringToNumber_def trim_def trimStart_def trimEnd_def
       isStrWhiteSpace_def nonDecimalIntegerLiteral_def strDecimalLiteral_def
       strUnsignedDecimalLiteral_def isDecimalDigit_def isRadixDigit_def digitValue_def
       digitsValue_def pow10_def Let_def)
  also have "\<dots> = Fin (of_int 3)" by (rule roundDouble_of_int) simp
  finally show ?thesis by (simp add: isNaN_def)
qed

text \<open>
  Claim C3: for a list of \<open>n\<close> items, \<^verbatim>\<open>"all"\<close> gives \<^verbatim>\<open>ALL\<close> if \<open>acceptAll\<close> and
  \<^verbatim>\<open>INVALID\<close> otherwise; \<^verbatim>\<open>"last"\<close> gives \<open>n\<close> if \<open>n\<close> is positive and
  \<^verbatim>\<open>INVALID\<close> otherwise; every value that is none of the four words \<^verbatim>\<open>"all"\<close>,
  \<^verbatim>\<open>"last"\<close>, \<^verbatim>\<open>"random"\<close>, \<^verbatim>\<open>"any"\<close> is cast to a number and floored, and
  the floor is returned if it lies between 1 and \<open>n\<close>, \<^verbatim>\<open>INVALID\<close> otherwise. So
  3.9 in a list of 5 gives 3, and 0 gives \<^verbatim>\<open>INVALID\<close>.
\<close>

theorem toListIndex_cases:
  "toListIndex random (Str ''all'') (Fin (real n)) acceptAll
     = (if acceptAll then LIST_ALL else LIST_INVALID)
   \<and> toListIndex random (Str ''last'') (Fin (real n)) acceptAll
     = (if 0 < n then Num (Fin (real n)) else LIST_INVALID)
   \<and> (index \<notin> {Str ''all'', Str ''last'', Str ''random'', Str ''any''} \<longrightarrow>
       toListIndex random index (Fin (real n)) acceptAll =
         (case toNumber index of
            Fin x \<Rightarrow> if 1 \<le> \<lfloor>x\<rfloor> \<and> \<lfloor>x\<rfloor> \<le> int n
                     then Num (Fin (of_int \<lfloor>x\<rfloor>)) else LIST_INVALID
          | _ \<Rightarrow> LIST_INVALID))
   \<and> toListIndex random (Num (Fin (39 / 10))) (Fin 5) False = Num (Fin 3)
   \<and> toListIndex random (Num (Fin 0)) (Fin 5) False = LIST_INVALID"
  using toListIndex_all toListIndex_last toListIndex_other toListIndex_examples
  by simp

theorem toListIndex_cases_witness:
  "Str ''3'' \<notin> {Str ''all'', Str ''last'', Str ''random'', Str ''any''}
   \<and> toListIndex 0 (Str ''3'') (Fin (real (5::nat))) False = Num (Fin 3)"
  using toListIndex_cases [where index = "Str ''3''" and n = 5 and random = 0 and acceptAll = False]
  by (simp add: toNumber_string_3 del: toNumber.simps)

section \<open>Cast.isInt\<close>

lemma digitValue_digit: "n < 10 \<Longrightarrow> digitValue (char_of (48 + n)) = Some n"
  by (simp add: digitValue_def Let_def)

lemma isRadixDigit_10:
  "isRadixDigit 10 c \<longleftrightarrow> 48 \<le> (of_char c :: nat) \<and> (of_char c :: nat) \<le> 57"
  by (auto simp: isRadixDigit_def digitValue_def Let_def)

lemma showNat_digits: "list_all (isRadixDigit 10) (showNat n)"
proof (induction n rule: showNat.induct)
  case (1 n)
  show ?case
  proof (cases "n < 10")
    case True
    then show ?thesis by (simp add: showNat.simps [of n] isRadixDigit_def digitValue_digit)
  next
    case False
    have "n mod 10 < 10" by simp
    then have "isRadixDigit 10 (char_of (48 + n mod 10))"
      by (simp only: isRadixDigit_def digitValue_digit) simp
    with False 1 show ?thesis by (simp add: showNat.simps [of n])
  qed
qed

lemma digitsValue_snoc:
  "digitsValue R (ds @ [c]) =
     digitsValue R ds * R + (case digitValue c of Some d \<Rightarrow> d | None \<Rightarrow> 0)"
  by (simp add: digitsValue_def)

lemma showNat_value: "digitsValue 10 (showNat n) = n"
proof (induction n rule: showNat.induct)
  case (1 n)
  show ?case
  proof (cases "n < 10")
    case True
    then show ?thesis by (simp add: showNat.simps [of n] digitsValue_def digitValue_digit)
  next
    case False
    have "n mod 10 < 10" by simp
    then have "digitValue (char_of (48 + n mod 10)) = Some (n mod 10)"
      by (rule digitValue_digit)
    with False 1 show ?thesis by (simp add: showNat.simps [of n] digitsValue_snoc)
  qed
qed

lemma showNat_not_Nil: "showNat n \<noteq> []"
  by (subst showNat.simps) simp

text \<open>
  Reading back what was written: \<^verbatim>\<open>parseInt\<close> of a run of decimal digits, with or
  without a sign, is the rounded value of the digits.
\<close>

lemma parseInt_digits:
  assumes "list_all (isRadixDigit 10) s" "s \<noteq> []"
  shows "parseInt s 10 = roundDouble (real (digitsValue 10 s))"
proof -
  from assms obtain c t where s: "s = c # t" by (cases s) auto
  with assms have c: "48 \<le> (of_char c :: nat)" "(of_char c :: nat) \<le> 57"
    by (simp_all add: isRadixDigit_10)
  then have nws: "\<not> isStrWhiteSpace c" by (auto simp: isStrWhiteSpace_def)
  have "of_char c \<noteq> (of_char CHR ''+'' :: nat)" "of_char c \<noteq> (of_char CHR ''-'' :: nat)"
    using c by simp_all
  then have nsign: "c \<noteq> CHR ''+''" "c \<noteq> CHR ''-''" by auto
  have tw: "takeWhile (isRadixDigit 10) s = s"
    using assms by (simp add: takeWhile_eq_all_conv list_all_iff)
  show ?thesis
    using nws nsign assms(2) tw by (simp add: parseInt_def trimStart_def s Let_def)
qed

lemma parseInt_minus_digits:
  assumes "list_all (isRadixDigit 10) s" "s \<noteq> []"
  shows "parseInt (CHR ''-'' # s) 10 = roundDouble (- real (digitsValue 10 s))"
proof -
  have tw: "takeWhile (isRadixDigit 10) s = s"
    using assms by (simp add: takeWhile_eq_all_conv list_all_iff)
  show ?thesis
    using assms(2) by (simp add: parseInt_def trimStart_def Let_def isStrWhiteSpace_def tw)
qed

lemma parseInt_signed_showNat:
  "parseInt ((if neg then ''-'' else []) @ showNat N) 10
     = (if neg then jneg (roundDouble (real N)) else roundDouble (real N))"
  by (simp add: parseInt_digits parseInt_minus_digits showNat_digits showNat_not_Nil
      showNat_value roundDouble_minus)

lemma parseInt_integral:
  "parseInt s R = NaN \<or> parseInt s R = PosInf \<or> parseInt s R = NegInf
   \<or> (\<exists>k. parseInt s R = Fin (of_int k))"
proof -
  have "\<exists>c k. parseInt s R = (if c then NaN else roundDouble (of_int k))"
    unfolding parseInt_def Let_def by (intro exI) (rule refl)
  then obtain c k where "parseInt s R = (if c then NaN else roundDouble (of_int k))" by blast
  then show ?thesis using roundDouble_integral [of k] by (cases c) auto
qed

lemma truncate_eq_iff: "x = of_int (truncate_real x) \<longleftrightarrow> x = of_int \<lfloor>x\<rfloor>"
  unfolding truncate_real_def by (metis ceiling_of_int floor_of_int)

lemma isInt_fraction:
  assumes "x \<noteq> of_int (truncate_real x)"
  shows "isInt fmt (Num (Fin x)) = False"
proof -
  from assms have "\<And>k. x \<noteq> of_int k" by (metis floor_of_int truncate_eq_iff)
  then have "\<not> jeq (Fin x) (parseInt s 10)" for s
    using parseInt_integral [of s 10] by (auto simp: jeq_iff)
  then show ?thesis by (simp add: isNaN_def)
qed

lemma isInt_small:
  assumes "\<bar>x\<bar> \<le> 2 ^ 53"
  shows "isInt fmt (Num (Fin x)) = (x = of_int (truncate_real x))"
proof (cases "x = of_int \<lfloor>x\<rfloor>")
  case True
  define n where "n = nat \<bar>\<lfloor>x\<rfloor>\<bar>"
  have "\<bar>\<lfloor>x\<rfloor>\<bar> \<le> 2 ^ 53" using assms by (simp add: abs_le_iff floor_le_iff le_floor_iff) linarith
  then have "\<bar>int n\<bar> \<le> 2 ^ 53" by (simp add: n_def)
  then have "roundDouble (of_int (int n)) = Fin (of_int (int n))" by (rule roundDouble_of_int)
  then have r: "roundDouble (real n) = Fin (real n)" by simp
  have str: "NumberToString fmt (Fin x) = (if x < 0 then ''-'' else []) @ showNat n"
  proof (cases "x < 0")
    case True
    then have "nat (- \<lfloor>x\<rfloor>) = n" unfolding n_def by linarith
    then show ?thesis using True \<open>x = of_int \<lfloor>x\<rfloor>\<close> assms by simp
  next
    case False
    then have "nat \<lfloor>x\<rfloor> = n" unfolding n_def by linarith
    then show ?thesis using False \<open>x = of_int \<lfloor>x\<rfloor>\<close> assms by simp
  qed
  have "real n = \<bar>x\<bar>" unfolding n_def using True by linarith
  then have "parseInt (NumberToString fmt (Fin x)) 10 = Fin x"
    unfolding str parseInt_signed_showNat r by simp
  then show ?thesis using True by (simp add: isNaN_def truncate_eq_iff)
next
  case False
  then show ?thesis using isInt_fraction [of x fmt] by (simp add: truncate_eq_iff)
qed

text \<open>
  Beyond \<open>2 ^ 53\<close> the digits that \<^verbatim>\<open>String\<close> writes are fixed by the language only in
  that they read back as the number. Whatever digits of such an integer \<open>N\<close> it writes,
  \<^verbatim>\<open>parseInt\<close> reads the number again.
\<close>

lemma isInt_reads_back:
  assumes "2 ^ 53 < \<bar>x\<bar>"
    and "fmt x = (if x < 0 then ''-'' else []) @ showNat N"
    and "roundDouble (real N) = Fin \<bar>x\<bar>"
  shows "isInt fmt (Num (Fin x))" "x = of_int (truncate_real x)"
proof -
  have "NumberToString fmt (Fin x) = fmt x" using assms(1) by simp
  then have "parseInt (NumberToString fmt (Fin x)) 10 = Fin x"
    by (simp only: assms(2,3) parseInt_signed_showNat) simp
  then show "isInt fmt (Num (Fin x))" by (simp add: isNaN_def)
  then show "x = of_int (truncate_real x)" using isInt_fraction [of x fmt] by blast
qed

text \<open>
  From \<open>10 ^ 21\<close> on \<^verbatim>\<open>String\<close> writes the exponent notation, one digit and then a point
  or the letter e, of which \<^verbatim>\<open>parseInt\<close> reads the one digit.
\<close>

lemma isInt_exponent_notation:
  assumes "10 ^ 21 \<le> \<bar>x\<bar>"
    and "fmt x = (if x < 0 then ''-'' else []) @ d # e # rest"
    and "isDecimalDigit d" "e = CHR ''.'' \<or> e = CHR ''e''"
  shows "\<not> isInt fmt (Num (Fin x))"
proof -
  obtain m where m: "digitValue d = Some m" "m < 10"
    using assms(3) by (auto simp: isDecimalDigit_def isRadixDigit_def split: option.splits)
  have d: "\<not> isStrWhiteSpace d" "d \<noteq> CHR ''+''" "d \<noteq> CHR ''-''" "isRadixDigit 10 d"
    using assms(3) by (auto simp: isDecimalDigit_def isRadixDigit_def digitValue_def
        isStrWhiteSpace_def)
  have e: "\<not> isRadixDigit 10 e"
    using assms(4) by (auto simp: isRadixDigit_def digitValue_def)
  have "\<bar>int m\<bar> \<le> 2 ^ 53" "\<bar>- int m\<bar> \<le> 2 ^ 53" using m(2) by simp_all
  then have r: "roundDouble (real m) = Fin (real m)" "roundDouble (- real m) = Fin (- real m)"
    using roundDouble_of_int [of "int m"] roundDouble_of_int [of "- int m"] by simp_all
  have "NumberToString fmt (Fin x) = fmt x" using assms(1) by simp
  moreover have "parseInt (fmt x) 10 = Fin (if x < 0 then - real m else real m)"
    using d e m(1) r
    by (simp add: assms(2) parseInt_def trimStart_def Let_def isStrWhiteSpace_def digitsValue_def)
  moreover have "x \<noteq> (if x < 0 then - real m else real m)" using assms(1) m(2) by auto
  ultimately show ?thesis by (simp add: isNaN_def)
qed

lemma isInt_NaN: "isInt fmt (Num NaN)"
  by (simp add: isNaN_def)

lemma isInt_infinite: "isInt fmt (Num PosInf) = False" "isInt fmt (Num NegInf) = False"
  by (simp_all add: isNaN_def parseInt_def trimStart_def isStrWhiteSpace_def Let_def
      isRadixDigit_def digitValue_def)

lemma indexOf_negative: "indexOf s c < 0 \<longleftrightarrow> c \<notin> set s"
  by (induction s) (auto simp: Let_def)

lemma isInt_examples:
  "isInt fmt (Str ''1e5'')" "\<not> isInt fmt (Str ''1.0'')" "isInt fmt (Bool True)"
  by (simp_all add: Let_def)

text \<open>
  Claim C4, as the code has it. For numbers \<^verbatim>\<open>isInt\<close> is true at NaN and false at the
  two infinities. A finite number gives false when it differs from its own truncation toward
  zero. A finite number that equals its truncation gives true up to \<open>2 ^ 53\<close> in magnitude,
  and beyond when \<^verbatim>\<open>String\<close> writes it as the digits of an integer that reads back as the
  number, which is how the language writes the numbers below \<open>10 ^ 21\<close>; it gives false when
  \<^verbatim>\<open>String\<close> writes it in exponent notation, which is how the language writes the numbers
  from \<open>10 ^ 21\<close> on. Booleans give true; a string gives true exactly when it has no
  character \<^verbatim>\<open>.\<close> (so \<^verbatim>\<open>"1e5"\<close> gives true and \<^verbatim>\<open>"1.0"\<close> false); \<^verbatim>\<open>null\<close> and
  \<^verbatim>\<open>undefined\<close> give false.
\<close>

theorem isInt_cases:
  "isInt fmt (Num NaN)
   \<and> \<not> isInt fmt (Num PosInf) \<and> \<not> isInt fmt (Num NegInf)
   \<and> (\<bar>x\<bar> \<le> 2 ^ 53 \<longrightarrow> isInt fmt (Num (Fin x)) = (x = of_int (truncate_real x)))
   \<and> (y \<noteq> of_int (truncate_real y) \<longrightarrow> \<not> isInt fmt (Num (Fin y)))
   \<and> (2 ^ 53 < \<bar>z\<bar> \<and> fmt z = (if z < 0 then ''-'' else []) @ showNat N
        \<and> roundDouble (real N) = Fin \<bar>z\<bar> \<longrightarrow>
       isInt fmt (Num (Fin z)) \<and> z = of_int (truncate_real z))
   \<and> (10 ^ 21 \<le> \<bar>w\<bar> \<and> fmt w = (if w < 0 then ''-'' else []) @ d # e # rest
        \<and> isDecimalDigit d \<and> (e = CHR ''.'' \<or> e = CHR ''e'') \<longrightarrow>
       \<not> isInt fmt (Num (Fin w)))
   \<and> isInt fmt (Bool b)
   \<and> isInt fmt (Str s) = (CHR ''.'' \<notin> set s)
   \<and> \<not> isInt fmt Null \<and> \<not> isInt fmt Undefined
   \<and> isInt fmt (Str ''1e5'') \<and> \<not> isInt fmt (Str ''1.0'') \<and> isInt fmt (Bool True)"
proof -
  have reads: "isInt fmt (Num (Fin z)) \<and> z = of_int (truncate_real z)"
    if "2 ^ 53 < \<bar>z\<bar> \<and> fmt z = (if z < 0 then ''-'' else []) @ showNat N
        \<and> roundDouble (real N) = Fin \<bar>z\<bar>"
    using that isInt_reads_back [of z fmt N] by blast
  have expo: "\<not> isInt fmt (Num (Fin w))"
    if "10 ^ 21 \<le> \<bar>w\<bar> \<and> fmt w = (if w < 0 then ''-'' else []) @ d # e # rest
        \<and> isDecimalDigit d \<and> (e = CHR ''.'' \<or> e = CHR ''e'')"
    using that isInt_exponent_notation [of w fmt d e rest] by blast
  show ?thesis
    using isInt_small [of x fmt] isInt_fraction [of y fmt] isInt_infinite [of fmt]
      indexOf_negative [of s "CHR ''.''"] isInt_examples [of fmt] isInt_NaN [of fmt] reads expo
    by (simp del: isInt.simps(1))
qed

lemma exampleFormat_values:
  "exampleFormat 9007199254740994 = showNat 9007199254740994"
  "exampleFormat (10 ^ 21) = ''1e+21''"
  by (simp_all add: exampleFormat_def)

lemma roundDouble_above_53: "roundDouble 9007199254740994 = Fin 9007199254740994"
  using roundDouble_near [of 53 9007199254740994 "2 ^ 52 + 1"] by simp

theorem isInt_cases_witness:
  "\<bar>7 :: real\<bar> \<le> 2 ^ 53 \<and> isInt exampleFormat (Num (Fin 7))
   \<and> (5 / 2 :: real) \<noteq> of_int (truncate_real (5 / 2))
   \<and> \<not> isInt exampleFormat (Num (Fin (5 / 2)))
   \<and> 2 ^ 53 < \<bar>9007199254740994 :: real\<bar>
   \<and> exampleFormat 9007199254740994 = showNat 9007199254740994
   \<and> roundDouble (real 9007199254740994) = Fin \<bar>9007199254740994\<bar>
   \<and> isInt exampleFormat (Num (Fin 9007199254740994))
   \<and> (10 :: real) ^ 21 \<le> \<bar>10 ^ 21\<bar>
   \<and> exampleFormat (10 ^ 21) = ''1e+21''
   \<and> isDecimalDigit CHR ''1''
   \<and> \<not> isInt exampleFormat (Num (Fin (10 ^ 21)))"
proof -
  have digit: "isDecimalDigit CHR ''1''"
    by (simp add: isDecimalDigit_def isRadixDigit_def digitValue_def)
  have trunc: "(5 / 2 :: real) \<noteq> of_int (truncate_real (5 / 2))"
    by (simp add: truncate_real_def)
  have seven: "truncate_real 7 = 7" by (simp add: truncate_real_def)
  show ?thesis
    using isInt_cases [where x = 7 and y = "5 / 2" and fmt = exampleFormat
        and z = 9007199254740994 and N = 9007199254740994
        and w = "10 ^ 21" and d = "CHR ''1''" and e = "CHR ''e''" and rest = "''+21''"]
      digit trunc seven exampleFormat_values roundDouble_above_53
    by (simp del: isInt.simps)
qed

text \<open>
  The digits need not be those of the number itself: \<open>2 ^ 60\<close> is written with the digits
  of the shorter 1152921504606847000, which reads back as \<open>2 ^ 60\<close>.
\<close>

lemma isInt_shorter_digits:
  assumes "fmt (2 ^ 60) = ''1152921504606847000''"
  shows "isInt fmt (Num (Fin (2 ^ 60)))"
proof -
  have "showNat 1152921504606847000 = ''1152921504606847000''"
    by (simp add: showNat.simps) code_simp
  moreover have "roundDouble (real 1152921504606847000) = Fin \<bar>2 ^ 60\<bar>"
    using roundDouble_near [of 60 1152921504606847000 "2 ^ 52"] by simp
  ultimately show ?thesis
    using isInt_reads_back(1) [of "2 ^ 60" fmt 1152921504606847000] assms by simp
qed

text \<open>
  Claim C4 as stated asks for true at every number that equals its own truncation. Infinity
  does, and \<^verbatim>\<open>isInt\<close> is false there: \<^verbatim>\<open>parseInt\<close> reads no digit in
  \<^verbatim>\<open>"Infinity"\<close>.
\<close>

theorem isInt_infinity_counterexample:
  "jeq PosInf (Math_trunc PosInf) \<and> isInt exampleFormat (Num PosInf) = False"
  using isInt_infinite(1) [of exampleFormat] by (simp del: isInt.simps)

section \<open>Color.hexToRgb\<close>

lemma isHexDigit_iff:
  "isHexDigit c =
     ((CHR ''0'' \<le> c \<and> c \<le> CHR ''9'') \<or> (CHR ''a'' \<le> c \<and> c \<le> CHR ''f'')
      \<or> (CHR ''A'' \<le> c \<and> c \<le> CHR ''F''))"
  by (auto simp: isHexDigit_def isRadixDigit_def digitValue_def Let_def less_eq_char_def)

lemma hash_not_hex: "\<not> isHexDigit CHR ''#''"
  by (simp add: isHexDigit_def isRadixDigit_def digitValue_def)

lemma shorthandRegex_Some:
  "shorthandRegex hex = Some (r, g, b) \<longleftrightarrow>
     (hex = [r, g, b] \<or> hex = [CHR ''#'', r, g, b])
     \<and> isHexDigit r \<and> isHexDigit g \<and> isHexDigit b"
  using hash_not_hex
  by (auto simp: shorthandRegex_def optionalHash_def split: list.splits if_splits)

lemma sixDigitRegex_Some:
  "sixDigitRegex hex = Some (x, y, z) \<longleftrightarrow>
     (\<exists>r1 r2 g1 g2 b1 b2.
        (hex = [r1, r2, g1, g2, b1, b2] \<or> hex = [CHR ''#'', r1, r2, g1, g2, b1, b2])
        \<and> list_all isHexDigit [r1, r2, g1, g2, b1, b2]
        \<and> x = [r1, r2] \<and> y = [g1, g2] \<and> z = [b1, b2])"
  using hash_not_hex
  by (auto simp: sixDigitRegex_def optionalHash_def split: list.splits if_splits)

lemma parseInt_hex_pair:
  assumes "isHexDigit c" "isHexDigit d"
  shows "parseInt [c, d] 16 = Fin (real (16 * the (digitValue c) + the (digitValue d)))"
proof -
  obtain m n where m: "digitValue c = Some m" "m < 16" and n: "digitValue d = Some n" "n < 16"
    using assms by (auto simp: isHexDigit_def isRadixDigit_def split: option.splits)
  have cw: "\<not> isStrWhiteSpace c" "c \<noteq> CHR ''+''" "c \<noteq> CHR ''-''" "d \<noteq> CHR ''x''" "d \<noteq> CHR ''X''"
    using assms by (auto simp: isHexDigit_def isRadixDigit_def digitValue_def isStrWhiteSpace_def)
  have "parseInt [c, d] 16 = roundDouble (of_int (int (16 * m + n)))"
    using m n cw
    by (simp add: parseInt_def trimStart_def Let_def isRadixDigit_def digitsValue_def mult.commute)
  also have "\<dots> = Fin (of_int (int (16 * m + n)))"
    by (rule roundDouble_of_int) (use m n in simp)
  finally show ?thesis using m n by simp
qed

lemma sixDigitRegex_accepts:
  "sixDigitRegex hex \<noteq> None \<longleftrightarrow>
     (\<exists>ds. (hex = ds \<or> hex = CHR ''#'' # ds) \<and> length ds = 6 \<and> list_all isHexDigit ds)"
proof
  assume "sixDigitRegex hex \<noteq> None"
  then obtain x y z where "sixDigitRegex hex = Some (x, y, z)" by (metis not_Some_eq prod_cases3)
  then obtain r1 r2 g1 g2 b1 b2 where
    "hex = [r1, r2, g1, g2, b1, b2] \<or> hex = [CHR ''#'', r1, r2, g1, g2, b1, b2]"
    "list_all isHexDigit [r1, r2, g1, g2, b1, b2]"
    unfolding sixDigitRegex_Some by blast
  then show "\<exists>ds. (hex = ds \<or> hex = CHR ''#'' # ds) \<and> length ds = 6 \<and> list_all isHexDigit ds"
    by (intro exI [of _ "[r1, r2, g1, g2, b1, b2]"]) simp
next
  assume "\<exists>ds. (hex = ds \<or> hex = CHR ''#'' # ds) \<and> length ds = 6 \<and> list_all isHexDigit ds"
  then obtain ds where ds: "hex = ds \<or> hex = CHR ''#'' # ds" "length ds = 6" "list_all isHexDigit ds"
    by blast
  from ds(2) obtain r1 r2 g1 g2 b1 b2 where "ds = [r1, r2, g1, g2, b1, b2]"
    by (auto simp: length_Suc_conv eval_nat_numeral)
  with ds have "sixDigitRegex hex = Some ([r1, r2], [g1, g2], [b1, b2])"
    unfolding sixDigitRegex_Some by auto
  then show "sixDigitRegex hex \<noteq> None" by simp
qed

lemma shorthandRegex_accepts:
  "shorthandRegex hex \<noteq> None \<longleftrightarrow>
     (\<exists>ds. (hex = ds \<or> hex = CHR ''#'' # ds) \<and> length ds = 3 \<and> list_all isHexDigit ds)"
proof
  assume "shorthandRegex hex \<noteq> None"
  then obtain r g b where "shorthandRegex hex = Some (r, g, b)" by (metis not_Some_eq prod_cases3)
  then have "(hex = [r, g, b] \<or> hex = [CHR ''#'', r, g, b]) \<and> list_all isHexDigit [r, g, b]"
    unfolding shorthandRegex_Some by simp
  then show "\<exists>ds. (hex = ds \<or> hex = CHR ''#'' # ds) \<and> length ds = 3 \<and> list_all isHexDigit ds"
    by (intro exI [of _ "[r, g, b]"]) simp
next
  assume "\<exists>ds. (hex = ds \<or> hex = CHR ''#'' # ds) \<and> length ds = 3 \<and> list_all isHexDigit ds"
  then obtain ds where ds: "hex = ds \<or> hex = CHR ''#'' # ds" "length ds = 3" "list_all isHexDigit ds"
    by blast
  from ds(2) obtain r g b where "ds = [r, g, b]"
    by (auto simp: length_Suc_conv eval_nat_numeral)
  with ds have "shorthandRegex hex = Some (r, g, b)"
    unfolding shorthandRegex_Some by auto
  then show "shorthandRegex hex \<noteq> None" by simp
qed

text \<open>
  A string the shorthand expression matches is replaced by its three digits doubled, which
  the second expression then accepts.
\<close>

lemma hexToRgb_shorthand:
  assumes "shorthandRegex hex = Some (r, g, b)"
  shows "hexToRgb hex = hexToRgb [r, r, g, g, b, b]" "hexToRgb hex \<noteq> None"
proof -
  have hd: "isHexDigit r" "isHexDigit g" "isHexDigit b"
    using assms unfolding shorthandRegex_Some by simp_all
  have none: "shorthandRegex [r, r, g, g, b, b] = None"
    by (simp add: shorthandRegex_def optionalHash_def)
  show eq: "hexToRgb hex = hexToRgb [r, r, g, g, b, b]"
    by (simp add: hexToRgb_def assms none)
  have "sixDigitRegex [r, r, g, g, b, b] \<noteq> None"
    unfolding sixDigitRegex_accepts using hd by (intro exI [of _ "[r, r, g, g, b, b]"]) simp
  then show "hexToRgb hex \<noteq> None"
    unfolding eq by (auto simp: hexToRgb_def none split: option.splits)
qed

lemma hexToRgb_not_shorthand:
  assumes "shorthandRegex hex = None"
  shows "hexToRgb hex \<noteq> None \<longleftrightarrow> sixDigitRegex hex \<noteq> None"
  by (auto simp: hexToRgb_def assms split: option.splits)

lemma hexToRgb_accepts:
  "hexToRgb hex \<noteq> None \<longleftrightarrow>
     (\<exists>ds. (hex = ds \<or> hex = CHR ''#'' # ds) \<and> (length ds = 3 \<or> length ds = 6)
           \<and> list_all isHexDigit ds)"
proof (cases "shorthandRegex hex")
  case None
  then have no3: "\<not> (\<exists>ds. (hex = ds \<or> hex = CHR ''#'' # ds) \<and> length ds = 3
      \<and> list_all isHexDigit ds)"
    using shorthandRegex_accepts [of hex] by simp
  have "hexToRgb hex \<noteq> None \<longleftrightarrow>
      (\<exists>ds. (hex = ds \<or> hex = CHR ''#'' # ds) \<and> length ds = 6 \<and> list_all isHexDigit ds)"
    using hexToRgb_not_shorthand [OF None] sixDigitRegex_accepts [of hex] by simp
  with no3 show ?thesis by blast
next
  case (Some t)
  obtain r g b where t: "t = (r, g, b)" by (cases t)
  have "hexToRgb hex \<noteq> None" using hexToRgb_shorthand(2) Some t by simp
  moreover have "\<exists>ds. (hex = ds \<or> hex = CHR ''#'' # ds) \<and> length ds = 3
      \<and> list_all isHexDigit ds"
    using shorthandRegex_accepts [of hex] Some by simp
  ultimately show ?thesis by blast
qed

lemma hexToRgb_six_digits:
  assumes "list_all isHexDigit [r1, r2, g1, g2, b1, b2]"
    and "hex = [r1, r2, g1, g2, b1, b2] \<or> hex = [CHR ''#'', r1, r2, g1, g2, b1, b2]"
  shows "hexToRgb hex =
     Some \<lparr>rgb_r = Fin (real (16 * the (digitValue r1) + the (digitValue r2))),
           rgb_g = Fin (real (16 * the (digitValue g1) + the (digitValue g2))),
           rgb_b = Fin (real (16 * the (digitValue b1) + the (digitValue b2))),
           rgb_a = None\<rparr>"
proof -
  have none: "shorthandRegex hex = None"
    using assms(2) by (auto simp: shorthandRegex_def optionalHash_def)
  have six: "sixDigitRegex hex = Some ([r1, r2], [g1, g2], [b1, b2])"
    unfolding sixDigitRegex_Some using assms by auto
  show ?thesis
    using assms(1) by (simp add: hexToRgb_def none six parseInt_hex_pair)
qed

lemma hexToRgb_three_digits:
  assumes "list_all isHexDigit [r, g, b]"
    and "hex = [r, g, b] \<or> hex = [CHR ''#'', r, g, b]"
  shows "hexToRgb hex = hexToRgb [r, r, g, g, b, b]"
proof -
  have "shorthandRegex hex = Some (r, g, b)"
    unfolding shorthandRegex_Some using assms by auto
  then show ?thesis by (rule hexToRgb_shorthand(1))
qed

text \<open>
  Claim C8: \<^verbatim>\<open>hexToRgb\<close> returns a colour exactly for the strings that are, after an
  optional leading \<^verbatim>\<open>#\<close>, three or six hexadecimal digits of either case, and
  \<^verbatim>\<open>null\<close> for every other string. Three digits stand for the six with each digit
  doubled; six digits give the three channels, two digits each.
\<close>

theorem hexToRgb_cases:
  "(hexToRgb hex \<noteq> None) =
     (\<exists>ds. (hex = ds \<or> hex = CHR ''#'' # ds) \<and> (length ds = 3 \<or> length ds = 6)
           \<and> list_all isHexDigit ds)
   \<and> (list_all isHexDigit [r, g, b] \<longrightarrow>
        hexToRgb [r, g, b] = hexToRgb [r, r, g, g, b, b]
        \<and> hexToRgb [CHR ''#'', r, g, b] = hexToRgb [r, r, g, g, b, b])
   \<and> (list_all isHexDigit [r1, r2, g1, g2, b1, b2] \<longrightarrow>
        hexToRgb [r1, r2, g1, g2, b1, b2] =
          Some \<lparr>rgb_r = Fin (real (16 * the (digitValue r1) + the (digitValue r2))),
                rgb_g = Fin (real (16 * the (digitValue g1) + the (digitValue g2))),
                rgb_b = Fin (real (16 * the (digitValue b1) + the (digitValue b2))),
                rgb_a = None\<rparr>
        \<and> hexToRgb [CHR ''#'', r1, r2, g1, g2, b1, b2] = hexToRgb [r1, r2, g1, g2, b1, b2])
   \<and> isHexDigit c =
       ((CHR ''0'' \<le> c \<and> c \<le> CHR ''9'') \<or> (CHR ''a'' \<le> c \<and> c \<le> CHR ''f'')
        \<or> (CHR ''A'' \<le> c \<and> c \<le> CHR ''F''))"
proof -
  have three: "hexToRgb [r, g, b] = hexToRgb [r, r, g, g, b, b]
      \<and> hexToRgb [CHR ''#'', r, g, b] = hexToRgb [r, r, g, g, b, b]"
    if "list_all isHexDigit [r, g, b]"
    using that hexToRgb_three_digits [of r g b] by blast
  have six: "hexToRgb [r1, r2, g1, g2, b1, b2] =
          Some \<lparr>rgb_r = Fin (real (16 * the (digitValue r1) + the (digitValue r2))),
                rgb_g = Fin (real (16 * the (digitValue g1) + the (digitValue g2))),
                rgb_b = Fin (real (16 * the (digitValue b1) + the (digitValue b2))),
                rgb_a = None\<rparr>
        \<and> hexToRgb [CHR ''#'', r1, r2, g1, g2, b1, b2] = hexToRgb [r1, r2, g1, g2, b1, b2]"
    if "list_all isHexDigit [r1, r2, g1, g2, b1, b2]"
    using that hexToRgb_six_digits [of r1 r2 g1 g2 b1 b2] by presburger
  show ?thesis
    using hexToRgb_accepts [of hex] three six isHexDigit_iff [of c] by blast
qed

lemma hex_digit_values:
  "the (digitValue CHR ''f'') = 15" "the (digitValue CHR ''A'') = 10"
  "the (digitValue CHR ''3'') = 3" "the (digitValue CHR ''0'') = 0"
  "the (digitValue CHR ''F'') = 15"
  by (simp_all add: digitValue_def)

theorem hexToRgb_cases_witness:
  "list_all isHexDigit ''fA3''
   \<and> hexToRgb ''#fA3'' = Some \<lparr>rgb_r = Fin 255, rgb_g = Fin 170, rgb_b = Fin 51, rgb_a = None\<rparr>
   \<and> list_all isHexDigit ''0033Ff''
   \<and> hexToRgb ''#0033Ff'' = Some \<lparr>rgb_r = Fin 0, rgb_g = Fin 51, rgb_b = Fin 255, rgb_a = None\<rparr>"
proof -
  have d: "list_all isHexDigit ''fA3''" "list_all isHexDigit ''0033Ff''" "list_all isHexDigit ''ffAA33''"
    by (simp_all add: isHexDigit_def isRadixDigit_def digitValue_def)
  show ?thesis
    using d
      hexToRgb_cases [where r = "CHR ''f''" and g = "CHR ''A''" and b = "CHR ''3''"
        and ?r1.0 = "CHR ''f''" and ?r2.0 = "CHR ''f''" and ?g1.0 = "CHR ''A''"
        and ?g2.0 = "CHR ''A''" and ?b1.0 = "CHR ''3''" and ?b2.0 = "CHR ''3''"]
      hexToRgb_cases [where ?r1.0 = "CHR ''0''" and ?r2.0 = "CHR ''0''" and ?g1.0 = "CHR ''3''"
        and ?g2.0 = "CHR ''3''" and ?b1.0 = "CHR ''F''" and ?b2.0 = "CHR ''f''"]
    by (simp add: hex_digit_values)
qed

section \<open>The decimal encoding of a colour\<close>

lemma truncate_real_of_int: "truncate_real (of_int k) = k"
  by (simp add: truncate_real_def)

lemma sint_word_of_int_32:
  assumes "- (2 ^ 31) \<le> k" "k < 2 ^ 31"
  shows "sint (word_of_int k :: 32 word) = k"
  using assms by (simp add: signed_of_int signed_take_bit_int_eq_self)

lemma ToInt32_ofInt32: "ToInt32 (ofInt32 w) = w"
proof -
  have "ToInt32 (ofInt32 w) = word_of_int (sint w)"
    by (simp only: ofInt32_def ToInt32.simps truncate_real_of_int)
  then show ?thesis by simp
qed

lemma ToInt32_255: "ToInt32 (Fin 255) = 255"
proof -
  have "ToInt32 (Fin (of_int 255)) = word_of_int 255"
    by (simp only: ToInt32.simps truncate_real_of_int)
  then show ?thesis by simp
qed

lemma sint_and_255: "sint (w AND 255) = sint w mod 256" for w :: "32 word"
proof -
  have "sint (w AND 255) = sint w AND sint (255 :: 32 word)"
    by (rule signed_and_eq)
  also have "sint (255 :: 32 word) = mask 8" by (simp add: mask_eq_exp_minus_1)
  also have "sint w AND mask 8 = sint w mod 2 ^ 8"
    by (simp add: take_bit_eq_mask [symmetric] take_bit_eq_mod)
  finally show ?thesis by simp
qed

lemma bitAnd_255: "bitAnd x (Fin 255) = Fin (of_int (sint (ToInt32 x) mod 256))"
  by (simp only: bitAnd_def ToInt32_255 ofInt32_def sint_and_255)

lemma ToInt32_shiftRight: "ToInt32 (shiftRight x n) = signed_drop_bit (n mod 32) (ToInt32 x)"
  by (simp only: shiftRight_def ToInt32_ofInt32)

lemma sint_signed_drop_bit_div: "sint (signed_drop_bit n w) = sint w div 2 ^ n" for w :: "32 word"
  by (simp add: sint_signed_drop_bit_eq drop_bit_eq_div)

text \<open>The four bytes that decimalToRgb reads, in terms of the signed 32-bit value.\<close>

lemma decimalToRgb_bytes:
  "decimalToRgb decimal =
     (let k = sint (ToInt32 decimal)
      in \<lparr>rgb_r = Fin (of_int (k div 2 ^ 16 mod 256)),
          rgb_g = Fin (of_int (k div 2 ^ 8 mod 256)),
          rgb_b = Fin (of_int (k mod 256)),
          rgb_a = Some (if 0 < k div 2 ^ 24 mod 256 then Fin (of_int (k div 2 ^ 24 mod 256)) else Fin 255)\<rparr>)"
  by (simp add: decimalToRgb_def Let_def bitAnd_255 ToInt32_shiftRight sint_signed_drop_bit_div jgt_def)

lemma ToInt32_of_int: "ToInt32 (Fin (of_int k)) = word_of_int k"
  by (simp only: ToInt32.simps truncate_real_of_int)

lemma shiftLeft_small:
  assumes "0 \<le> k" "k \<le> 255" "n \<le> 16"
  shows "shiftLeft (Fin (of_int k)) n = Fin (of_int (k * 2 ^ n))"
proof -
  have "(2::int) ^ n \<le> 2 ^ 16" by (rule power_increasing [OF assms(3)]) simp
  then have "k * 2 ^ n \<le> 255 * 2 ^ 16" using assms(1,2) by (intro mult_mono) simp_all
  then have up: "k * 2 ^ n < 2 ^ 31" by simp
  have lo: "- (2 ^ 31) \<le> k * 2 ^ n" using assms by (smt (verit) mult_nonneg_nonneg zero_le_power)
  have pb: "push_bit n (word_of_int k :: 32 word) = word_of_int (k * 2 ^ n)"
    by (simp add: push_bit_eq_mult)
  have n: "n mod 32 = n" using assms(3) by simp
  have "shiftLeft (Fin (of_int k)) n = Fin (of_int (sint (push_bit n (word_of_int k :: 32 word))))"
    by (simp only: shiftLeft_def ofInt32_def ToInt32_of_int n)
  also have "\<dots> = Fin (of_int (sint (word_of_int (k * 2 ^ n) :: 32 word)))"
    by (simp only: pb)
  also have "\<dots> = Fin (of_int (k * 2 ^ n))"
    by (simp only: sint_word_of_int_32 [OF lo up])
  finally show ?thesis .
qed

lemma byte_div_mod:
  fixes a b :: int
  assumes "0 \<le> b" "b < 256"
  shows "(a * 256 + b) div 256 = a" "(a * 256 + b) mod 256 = b"
  using assms by simp_all

lemma rgbToDecimal_bytes:
  assumes "0 \<le> r" "r \<le> 255" "0 \<le> g" "g \<le> 255" "0 \<le> b" "b \<le> 255"
  shows "rgbToDecimal (Some \<lparr>rgb_r = Fin (of_int r), rgb_g = Fin (of_int g), rgb_b = Fin (of_int b), rgb_a = al\<rparr>)
     = Inr (Fin (of_int (r * 65536 + g * 256 + b)))"
proof -
  have shifts: "shiftLeft (Fin (of_int r)) 16 = Fin (of_int (r * 2 ^ 16))"
    "shiftLeft (Fin (of_int g)) 8 = Fin (of_int (g * 2 ^ 8))"
    using assms by (simp_all only: shiftLeft_small)
  have "jadd (Fin (of_int (r * 2 ^ 16))) (Fin (of_int (g * 2 ^ 8)))
      = roundDouble (of_int (r * 2 ^ 16 + g * 2 ^ 8))"
    by (simp only: jadd.simps of_int_add)
  also have "\<dots> = Fin (of_int (r * 2 ^ 16 + g * 2 ^ 8))"
    by (rule roundDouble_of_int) (use assms in simp)
  finally have first: "jadd (Fin (of_int (r * 2 ^ 16))) (Fin (of_int (g * 2 ^ 8)))
      = Fin (of_int (r * 2 ^ 16 + g * 2 ^ 8))" .
  have "jadd (Fin (of_int (r * 2 ^ 16 + g * 2 ^ 8))) (Fin (of_int b))
      = roundDouble (of_int (r * 2 ^ 16 + g * 2 ^ 8 + b))"
    by (simp only: jadd.simps of_int_add)
  also have "\<dots> = Fin (of_int (r * 2 ^ 16 + g * 2 ^ 8 + b))"
    by (rule roundDouble_of_int) (use assms in simp)
  finally have "jadd (Fin (of_int (r * 2 ^ 16 + g * 2 ^ 8))) (Fin (of_int b))
      = Fin (of_int (r * 65536 + g * 256 + b))" by simp
  then show ?thesis
    by (simp only: rgbToDecimal_def option.case RGBObject.simps shifts first)
qed

lemma decimalToRgb_packed:
  assumes "0 \<le> r" "r \<le> 255" "0 \<le> g" "g \<le> 255" "0 \<le> b" "b \<le> 255"
  shows "decimalToRgb (Fin (of_int (r * 65536 + g * 256 + b))) =
     \<lparr>rgb_r = Fin (of_int r), rgb_g = Fin (of_int g), rgb_b = Fin (of_int b), rgb_a = Some (Fin 255)\<rparr>"
proof -
  define d where "d = r * 65536 + g * 256 + b"
  have range: "0 \<le> d" "d < 2 ^ 24" using assms by (simp_all add: d_def)
  then have k: "sint (ToInt32 (Fin (of_int d))) = d"
    by (simp only: ToInt32_of_int) (rule sint_word_of_int_32, simp_all)
  have d1: "d = (r * 256 + g) * 256 + b" by (simp add: d_def)
  have b: "d mod 256 = b" unfolding d1 using assms by (simp only: byte_div_mod)
  have d2: "d div 256 = r * 256 + g" unfolding d1 using assms by (simp only: byte_div_mod)
  have g: "d div 2 ^ 8 mod 256 = g" using assms by (simp add: d2 byte_div_mod)
  have "d div 2 ^ 16 = d div 256 div 256" by (simp add: div_mult2_eq [symmetric])
  also have "\<dots> = r" using assms by (simp add: d2 byte_div_mod)
  finally have r: "d div 2 ^ 16 mod 256 = r" using assms by simp
  have a: "d div 2 ^ 24 mod 256 = 0" using range by simp
  show ?thesis
    unfolding d_def [symmetric] decimalToRgb_bytes Let_def k r g b a by simp
qed

text \<open>
  Claim C5: for integers \<open>r\<close>, \<open>g\<close>, \<open>b\<close> between 0 and 255, \<^verbatim>\<open>rgbToDecimal\<close> packs
  the colour into \<open>65536 r + 256 g + b\<close>, and \<^verbatim>\<open>decimalToRgb\<close> of that number has the
  same three components (and the alpha 255).
\<close>

theorem decimal_rgb_roundtrip:
  assumes "0 \<le> r" "r \<le> 255" "0 \<le> g" "g \<le> 255" "0 \<le> b" "b \<le> 255"
  shows "rgbToDecimal (Some \<lparr>rgb_r = Fin (of_int r), rgb_g = Fin (of_int g),
                              rgb_b = Fin (of_int b), rgb_a = al\<rparr>)
           = Inr (Fin (of_int (r * 65536 + g * 256 + b)))
         \<and> decimalToRgb (Fin (of_int (r * 65536 + g * 256 + b)))
           = \<lparr>rgb_r = Fin (of_int r), rgb_g = Fin (of_int g), rgb_b = Fin (of_int b),
               rgb_a = Some (Fin 255)\<rparr>"
  using assms rgbToDecimal_bytes decimalToRgb_packed by blast

theorem decimal_rgb_roundtrip_witness:
  "(0::int) \<le> 18 \<and> (18::int) \<le> 255 \<and> (0::int) \<le> 52 \<and> (52::int) \<le> 255
   \<and> (0::int) \<le> 86 \<and> (86::int) \<le> 255
   \<and> rgbToDecimal (Some \<lparr>rgb_r = Fin 18, rgb_g = Fin 52, rgb_b = Fin 86, rgb_a = None\<rparr>)
       = Inr (Fin 1193046)
   \<and> decimalToRgb (Fin 1193046)
       = \<lparr>rgb_r = Fin 18, rgb_g = Fin 52, rgb_b = Fin 86, rgb_a = Some (Fin 255)\<rparr>"
  using decimal_rgb_roundtrip [of 18 52 86 None] by simp

section \<open>Color.hsvToRgb\<close>

lemma jmod_360:
  "\<exists>m. jmod (Fin h) (Fin 360) = Fin m \<and> - 360 < m \<and> m < 360 \<and> (0 \<le> h \<longrightarrow> 0 \<le> m)"
proof (cases "0 \<le> h")
  case True
  have "of_int \<lfloor>h / 360\<rfloor> \<le> h / 360" "h / 360 < of_int \<lfloor>h / 360\<rfloor> + 1" by linarith+
  then have "0 \<le> h - 360 * of_int \<lfloor>h / 360\<rfloor>" "h - 360 * of_int \<lfloor>h / 360\<rfloor> < 360"
    by (simp_all add: field_simps)
  then show ?thesis using True by (simp add: truncate_real_def)
next
  case False
  define c :: real where "c = of_int \<lceil>h / 360\<rceil>"
  have "c - 1 < h / 360" "h / 360 \<le> c" unfolding c_def by linarith+
  then have "- 360 < h - 360 * c" "h - 360 * c \<le> 0" by (simp_all add: field_simps)
  then show ?thesis using False by (simp add: truncate_real_def c_def)
qed

text \<open>The hue lies between 0 and 360, and a hue from a non-negative input is below 360.\<close>

lemma hsvHue_range: "\<exists>hue. hsvHue (Fin h) = Fin hue \<and> 0 \<le> hue \<and> hue \<le> 360"
proof -
  obtain m where m: "jmod (Fin h) (Fin 360) = Fin m" "- 360 < m" "m < 360"
    using jmod_360 by blast
  show ?thesis
  proof (cases "m < 0")
    case True
    then have "(of_int 0 :: real) \<le> m + 360" "m + 360 \<le> of_int 360" using m(2) by simp_all
    then obtain y where "roundDouble (m + 360) = Fin y" "0 \<le> y" "y \<le> 360"
      using roundDouble_between [of 0 360 "m + 360"] by auto
    then show ?thesis using True unfolding hsvHue_def m(1) Let_def by simp
  next
    case False
    then show ?thesis using m(3) unfolding hsvHue_def m(1) Let_def by simp
  qed
qed

lemma hsvHue_nonneg_input:
  assumes "0 \<le> h"
  shows "\<exists>hue. hsvHue (Fin h) = Fin hue \<and> 0 \<le> hue \<and> hue < 360"
proof -
  obtain m where m: "jmod (Fin h) (Fin 360) = Fin m" "m < 360" "0 \<le> m"
    using jmod_360 [of h] assms by blast
  then show ?thesis unfolding hsvHue_def m(1) Let_def by simp
qed

lemma hsvHue_tiny_negative: "hsvHue (Fin (- (1 / 2 ^ 70))) = Fin 360"
proof -
  have "truncate_real (- (1 / 2 ^ 70) / 360) = 0"
    unfolding truncate_real_def by (simp add: ceiling_eq_iff)
  moreover have "roundDouble (360 - 1 / 2 ^ 70) = Fin 360"
    using roundDouble_near [of 8 "360 - 1 / 2 ^ 70" "360 * 2 ^ 44"] by (simp add: power_int_minus)
  ultimately show ?thesis by (simp add: hsvHue_def)
qed

lemma sector_range:
  assumes "0 \<le> hue" "hue \<le> 360"
  shows "\<exists>d. jdiv (Fin hue) (Fin 60) = Fin d \<and> 0 \<le> d \<and> d \<le> 6 \<and> 0 \<le> \<lfloor>d\<rfloor> \<and> \<lfloor>d\<rfloor> \<le> 6"
proof -
  have "(of_int 0 :: real) \<le> hue / 60" "hue / 60 \<le> of_int 6" using assms by simp_all
  then obtain d where d: "roundDouble (hue / 60) = Fin d" "0 \<le> d" "d \<le> 6"
    using roundDouble_between [of 0 6 "hue / 60"] by auto
  then have "0 \<le> \<lfloor>d\<rfloor>" "\<lfloor>d\<rfloor> \<le> 6" by (simp_all add: floor_le_iff)
  with d show ?thesis by simp
qed

lemma sector_360: "Math_floor (jdiv (Fin 360) (Fin 60)) = Fin 6"
  using roundDouble_of_int [of 6] by simp

lemma clamp_Fin: "Math_max (Fin 0) (Math_min (Fin x) (Fin 1)) = Fin (clamp01 x)"
  by (simp add: clamp01_def max_def min_def)

lemma clamp01_range: "0 \<le> clamp01 x" "clamp01 x \<le> 1"
  by (simp_all add: clamp01_def)

text \<open>
  The \<^verbatim>\<open>switch\<close> of the code and the choice by \<open>\<lfloor>h / 60\<rfloor> mod 6\<close> agree: the sector is one
  of 0 to 6, and 6 is left to the \<^verbatim>\<open>default\<close> label, which stands with \<^verbatim>\<open>case 0\<close>.
\<close>

lemma hsvToRgb_refines:
  "hsvToRgb \<lparr>hsv_h = Fin h, hsv_s = Fin s, hsv_v = Fin v\<rparr> = hsvToRgb_spec (Fin h) (Fin s) (Fin v)"
proof -
  obtain hue where hue: "hsvHue (Fin h) = Fin hue" "0 \<le> hue" "hue \<le> 360"
    using hsvHue_range by blast
  obtain d where d: "jdiv (Fin hue) (Fin 60) = Fin d" "0 \<le> \<lfloor>d\<rfloor>" "\<lfloor>d\<rfloor> \<le> 6"
    using sector_range [OF hue(2,3)] by blast
  define i where "i = \<lfloor>d\<rfloor>"
  have "i = 0 \<or> i = 1 \<or> i = 2 \<or> i = 3 \<or> i = 4 \<or> i = 5 \<or> i = 6"
    using d(2,3) unfolding i_def by presburger
  then have sel: "(if jeq (Fin (of_int i)) (Fin 1) then (q, w, p)
             else if jeq (Fin (of_int i)) (Fin 2) then (p, w, t)
             else if jeq (Fin (of_int i)) (Fin 3) then (p, q, w)
             else if jeq (Fin (of_int i)) (Fin 4) then (t, p, w)
             else if jeq (Fin (of_int i)) (Fin 5) then (w, p, q)
             else (w, t, p))
        = [(w, t, p), (q, w, p), (p, w, t), (p, q, w), (t, p, w), (w, p, q)] ! nat (i mod 6)"
    for w t p q :: jsnum
    by (elim disjE) simp_all
  have sec: "sectorIndex (Fin d) = nat (i mod 6)" by (simp add: sectorIndex_def i_def)
  have fl: "Math_floor (Fin d) = Fin (of_int i)" by (simp add: i_def)
  show ?thesis
    unfolding hsvToRgb_def hsvToRgb_spec_def Let_def HSVObject.simps hue(1) d(1) fl sec sel ..
qed

lemma hsvToRgb_examples:
  "hsvToRgb \<lparr>hsv_h = Fin 0, hsv_s = Fin 0, hsv_v = Fin 1\<rparr>
     = \<lparr>rgb_r = Fin 255, rgb_g = Fin 255, rgb_b = Fin 255, rgb_a = None\<rparr>"
  "hsvToRgb \<lparr>hsv_h = Fin 0, hsv_s = Fin 1, hsv_v = Fin 1\<rparr>
     = \<lparr>rgb_r = Fin 255, rgb_g = Fin 0, rgb_b = Fin 0, rgb_a = None\<rparr>"
  by (simp_all add: hsvToRgb_def hsvHue_def Let_def truncate_real_def roundDouble_zero
      roundDouble_one roundDouble_numeral)


text \<open>
  Claim C6, as the code has it, with the arithmetic of the 64-bit format: for real \<open>h\<close>,
  \<open>s\<close>, \<open>v\<close>, \<^verbatim>\<open>hsvToRgb\<close> computes what the specification describes. The hue is
  the remainder of \<open>h\<close> by 360, with 360 added when it is negative; it lies between 0 and
  360, 360 included, and below 360 when \<open>h\<close> is not negative. \<open>s\<close> and \<open>v\<close> are clamped
  between 0 and 1. The sector \<open>\<lfloor>h / 60\<rfloor>\<close> is one of 0 to 6 and selects the arrangement,
  6 selecting as 0 does. Each channel is the floor of 255 times its value. White and red
  come out as in the specification.
\<close>

theorem hsvToRgb_by_sector:
  "hsvToRgb \<lparr>hsv_h = Fin h, hsv_s = Fin s, hsv_v = Fin v\<rparr> = hsvToRgb_spec (Fin h) (Fin s) (Fin v)
   \<and> hsvHue (Fin h) =
       (let m = h - 360 * of_int (truncate_real (h / 360))
        in if m < 0 then roundDouble (m + 360) else Fin m)
   \<and> (\<exists>hue d. hsvHue (Fin h) = Fin hue \<and> 0 \<le> hue \<and> hue \<le> 360
        \<and> jdiv (Fin hue) (Fin 60) = Fin d \<and> 0 \<le> \<lfloor>d\<rfloor> \<and> \<lfloor>d\<rfloor> \<le> 6)
   \<and> (0 \<le> k \<longrightarrow> (\<exists>hue. hsvHue (Fin k) = Fin hue \<and> 0 \<le> hue \<and> hue < 360))
   \<and> Math_max (Fin 0) (Math_min (Fin s) (Fin 1)) = Fin (clamp01 s)
   \<and> 0 \<le> clamp01 s \<and> clamp01 s \<le> 1
   \<and> hsvToRgb \<lparr>hsv_h = Fin 0, hsv_s = Fin 0, hsv_v = Fin 1\<rparr>
       = \<lparr>rgb_r = Fin 255, rgb_g = Fin 255, rgb_b = Fin 255, rgb_a = None\<rparr>
   \<and> hsvToRgb \<lparr>hsv_h = Fin 0, hsv_s = Fin 1, hsv_v = Fin 1\<rparr>
       = \<lparr>rgb_r = Fin 255, rgb_g = Fin 0, rgb_b = Fin 0, rgb_a = None\<rparr>"
proof -
  obtain hue where hue: "hsvHue (Fin h) = Fin hue" "0 \<le> hue" "hue \<le> 360"
    using hsvHue_range by blast
  obtain d where d: "jdiv (Fin hue) (Fin 60) = Fin d" "0 \<le> \<lfloor>d\<rfloor>" "\<lfloor>d\<rfloor> \<le> 6"
    using sector_range [OF hue(2,3)] by blast
  have sector: "\<exists>hue d. hsvHue (Fin h) = Fin hue \<and> 0 \<le> hue \<and> hue \<le> 360
        \<and> jdiv (Fin hue) (Fin 60) = Fin d \<and> 0 \<le> \<lfloor>d\<rfloor> \<and> \<lfloor>d\<rfloor> \<le> 6"
    using hue d by blast
  have reduce: "hsvHue (Fin h) =
       (let m = h - 360 * of_int (truncate_real (h / 360))
        in if m < 0 then roundDouble (m + 360) else Fin m)"
    by (simp add: hsvHue_def Let_def)
  have below: "0 \<le> k \<longrightarrow> (\<exists>hue. hsvHue (Fin k) = Fin hue \<and> 0 \<le> hue \<and> hue < 360)"
    using hsvHue_nonneg_input [of k] by blast
  show ?thesis
    using hsvToRgb_refines [of h s v] reduce sector below clamp_Fin [of s]
      clamp01_range [of s] hsvToRgb_examples
    by blast
qed

theorem hsvToRgb_by_sector_witness:
  "(0 :: real) \<le> 400 \<and> (\<exists>hue. hsvHue (Fin 400) = Fin hue \<and> 0 \<le> hue \<and> hue < 360)"
  using hsvToRgb_by_sector [where k = 400 and h = 0 and s = 0 and v = 0] by simp

text \<open>
  Claim C6 as stated has the hue below 360 and the sector among six. A negative input
  close to zero comes to the hue 360 itself, 360 less a little being rounded to 360, and
  to the sector 6.
\<close>

theorem hsvToRgb_hue_360_counterexample:
  "hsvHue (Fin (- (1 / 2 ^ 70))) = Fin 360
   \<and> Math_floor (jdiv (hsvHue (Fin (- (1 / 2 ^ 70)))) (Fin 60)) = Fin 6"
  by (simp only: hsvHue_tiny_negative sector_360)

section \<open>The range of colour components\<close>

lemma isByte_of_int: "isByte (Fin (of_int k)) \<longleftrightarrow> 0 \<le> k \<and> k \<le> 255"
  by (simp add: isByte_def)

lemma decimalToRgb_isByte:
  "isByte (rgb_r (decimalToRgb d))" "isByte (rgb_g (decimalToRgb d))" "isByte (rgb_b (decimalToRgb d))"
  unfolding decimalToRgb_bytes Let_def by (simp_all add: isByte_of_int)

lemma hex_pair_bound:
  assumes "isHexDigit c" "isHexDigit d"
  shows "16 * the (digitValue c) + the (digitValue d) \<le> 255"
proof -
  obtain m n where "digitValue c = Some m" "m < 16" "digitValue d = Some n" "n < 16"
    using assms by (auto simp: isHexDigit_def isRadixDigit_def split: option.splits)
  then show ?thesis by simp
qed

lemma isByte_of_nat: "isByte (Fin (real n)) \<longleftrightarrow> n \<le> 255"
  by (simp add: isByte_def)

lemma hexToRgb_isByte:
  assumes "hexToRgb hex = Some c"
  shows "isByte (rgb_r c) \<and> isByte (rgb_g c) \<and> isByte (rgb_b c)"
proof -
  obtain x y z where six: "sixDigitRegex
      (case shorthandRegex hex of Some (r, g, b) \<Rightarrow> [r, r, g, g, b, b] | None \<Rightarrow> hex) = Some (x, y, z)"
    and c: "c = \<lparr>rgb_r = parseInt x 16, rgb_g = parseInt y 16, rgb_b = parseInt z 16, rgb_a = None\<rparr>"
    using assms by (auto simp: hexToRgb_def Let_def split: option.splits)
  from six obtain r1 r2 g1 g2 b1 b2 where
    d: "list_all isHexDigit [r1, r2, g1, g2, b1, b2]" "x = [r1, r2]" "y = [g1, g2]" "z = [b1, b2]"
    unfolding sixDigitRegex_Some by blast
  show ?thesis
    using d(1) unfolding c d(2-4)
    by (simp add: parseInt_hex_pair isByte_of_nat hex_pair_bound del: of_nat_add of_nat_mult)
qed

text \<open>
  In \<^verbatim>\<open>hsvToRgb\<close> every intermediate value stays between 0 and 1, rounding included, so
  that each channel, the floor of 255 times such a value, is an integer between 0 and 255.
\<close>

lemma unit_floor:
  assumes "0 \<le> c" "c \<le> 1"
  shows "isByte (Math_floor (jmul (Fin c) (Fin 255)))"
proof -
  have "(of_int 0 :: real) \<le> c * 255" "c * 255 \<le> of_int 255" using assms by simp_all
  then obtain y where y: "roundDouble (c * 255) = Fin y" "0 \<le> y" "y \<le> 255"
    using roundDouble_between [of 0 255 "c * 255"] by auto
  then have "0 \<le> \<lfloor>y\<rfloor>" "\<lfloor>y\<rfloor> \<le> 255" by (simp_all add: floor_le_iff)
  then show ?thesis by (simp add: y(1) isByte_of_int)
qed

lemma unit_complement:
  assumes "0 \<le> a" "a \<le> 1"
  shows "\<exists>c. jsub (Fin 1) (Fin a) = Fin c \<and> 0 \<le> c \<and> c \<le> 1"
  using roundDouble_unit [of "1 - a"] assms by simp

lemma unit_product:
  assumes "0 \<le> a" "a \<le> 1" "0 \<le> b" "b \<le> 1"
  shows "\<exists>c. jmul (Fin a) (Fin b) = Fin c \<and> 0 \<le> c \<and> c \<le> 1"
  using roundDouble_unit [of "a * b"] assms by (simp add: mult_le_one)

lemma unit_fraction:
  "\<exists>f. jsub (Fin d) (Math_floor (Fin d)) = Fin f \<and> 0 \<le> f \<and> f \<le> 1"
proof -
  have "0 \<le> d - of_int \<lfloor>d\<rfloor>" "d - of_int \<lfloor>d\<rfloor> \<le> 1" by linarith+
  then show ?thesis using roundDouble_unit [of "d - of_int \<lfloor>d\<rfloor>"] by simp
qed

lemma hsvToRgb_isByte:
  "isByte (rgb_r (hsvToRgb \<lparr>hsv_h = Fin h, hsv_s = Fin s, hsv_v = Fin v\<rparr>))
   \<and> isByte (rgb_g (hsvToRgb \<lparr>hsv_h = Fin h, hsv_s = Fin s, hsv_v = Fin v\<rparr>))
   \<and> isByte (rgb_b (hsvToRgb \<lparr>hsv_h = Fin h, hsv_s = Fin s, hsv_v = Fin v\<rparr>))"
proof -
  define S where "S = clamp01 s"
  define V where "V = clamp01 v"
  have S: "0 \<le> S" "S \<le> 1" and V: "0 \<le> V" "V \<le> 1"
    by (simp_all add: S_def V_def clamp01_range)
  obtain hue where hue: "hsvHue (Fin h) = Fin hue" "0 \<le> hue" "hue \<le> 360"
    using hsvHue_range by blast
  obtain d where d: "jdiv (Fin hue) (Fin 60) = Fin d"
    using sector_range [OF hue(2,3)] by blast
  obtain f where f: "jsub (Fin d) (Math_floor (Fin d)) = Fin f" "0 \<le> f" "f \<le> 1"
    using unit_fraction by blast
  obtain a where a: "jsub (Fin 1) (Fin S) = Fin a" "0 \<le> a" "a \<le> 1"
    using unit_complement [OF S] by blast
  obtain p where p: "jmul (Fin V) (Fin a) = Fin p" "0 \<le> p" "p \<le> 1"
    using unit_product [OF V a(2,3)] by blast
  obtain b where b: "jmul (Fin S) (Fin f) = Fin b" "0 \<le> b" "b \<le> 1"
    using unit_product [OF S f(2,3)] by blast
  obtain c where c: "jsub (Fin 1) (Fin b) = Fin c" "0 \<le> c" "c \<le> 1"
    using unit_complement [OF b(2,3)] by blast
  obtain q where q: "jmul (Fin V) (Fin c) = Fin q" "0 \<le> q" "q \<le> 1"
    using unit_product [OF V c(2,3)] by blast
  obtain g where g: "jsub (Fin 1) (Fin f) = Fin g" "0 \<le> g" "g \<le> 1"
    using unit_complement [OF f(2,3)] by blast
  obtain e where e: "jmul (Fin S) (Fin g) = Fin e" "0 \<le> e" "e \<le> 1"
    using unit_product [OF S g(2,3)] by blast
  obtain k where k: "jsub (Fin 1) (Fin e) = Fin k" "0 \<le> k" "k \<le> 1"
    using unit_complement [OF e(2,3)] by blast
  obtain t where t: "jmul (Fin V) (Fin k) = Fin t" "0 \<le> t" "t \<le> 1"
    using unit_product [OF V k(2,3)] by blast
  note bytes = unit_floor [OF V] unit_floor [OF p(2,3)] unit_floor [OF q(2,3)]
    unit_floor [OF t(2,3)]
  have "hsvToRgb \<lparr>hsv_h = Fin h, hsv_s = Fin s, hsv_v = Fin v\<rparr> =
     (let (r, g, b) =
            (if jeq (Math_floor (Fin d)) (Fin 1) then (Fin q, Fin V, Fin p)
             else if jeq (Math_floor (Fin d)) (Fin 2) then (Fin p, Fin V, Fin t)
             else if jeq (Math_floor (Fin d)) (Fin 3) then (Fin p, Fin q, Fin V)
             else if jeq (Math_floor (Fin d)) (Fin 4) then (Fin t, Fin p, Fin V)
             else if jeq (Math_floor (Fin d)) (Fin 5) then (Fin V, Fin p, Fin q)
             else (Fin V, Fin t, Fin p))
      in \<lparr>rgb_r = Math_floor (jmul r (Fin 255)),
          rgb_g = Math_floor (jmul g (Fin 255)),
          rgb_b = Math_floor (jmul b (Fin 255)),
          rgb_a = None\<rparr>)"
    unfolding hsvToRgb_def Let_def HSVObject.simps clamp_Fin hue(1) d
      S_def [symmetric] V_def [symmetric] f(1) a(1) p(1) b(1) c(1) q(1) g(1) e(1) k(1) t(1) ..
  then show ?thesis using bytes by (simp del: Math_floor.simps jmul.simps jeq.simps)
qed

text \<open>
  \<^verbatim>\<open>mixRgb\<close> of two colours with components between 0 and 255: every rounding moves
  its result by little, so the components, bounded by 255 before rounding, stay below 256.
\<close>

lemma mix_channel:
  assumes "0 < f" "f < 1" "0 \<le> a" "a \<le> 255" "0 \<le> b" "b \<le> 255"
  shows "inChannelRange
     (jadd (jmul (jsub (Fin 1) (Fin f)) (Fin a)) (jmul (Fin f) (Fin b)))"
proof -
  define u :: real where "u = 2 powi (8 - 54)"
  define w :: real where "w = 2 powi (0 - 54)"
  have small: "255 * w + 3 * u < 1" "0 < u"
    by (simp_all add: u_def w_def power_int_minus field_simps)
  have "\<bar>1 - f\<bar> < 2 powi 0" using assms(1,2) by simp
  then obtain f0 where f0: "roundDouble (1 - f) = Fin f0" "\<bar>f0 - (1 - f)\<bar> \<le> w"
    using roundDouble_error [of "1 - f" 0] unfolding w_def by auto
  have "0 \<le> f0 \<and> f0 \<le> 1"
    using roundDouble_unit [of "1 - f"] assms(1,2) f0(1) by auto
  then have f0r: "0 \<le> f0" "f0 \<le> 1" by simp_all
  have xa: "0 \<le> f0 * a" "f0 * a \<le> f0 * 255"
    using f0r assms(3,4) by (simp_all add: mult_left_mono)
  have xb: "0 \<le> f * b" "f * b \<le> f * 255"
    using assms(1,5,6) by (simp_all add: mult_left_mono)
  have "\<bar>f0 * a\<bar> < 2 powi 8" using xa f0r by simp
  then obtain A where A: "roundDouble (f0 * a) = Fin A" "\<bar>A - f0 * a\<bar> \<le> u"
    using roundDouble_error [of "f0 * a" 8] unfolding u_def by auto
  have "\<bar>f * b\<bar> < 2 powi 8" using xb assms(2) by simp
  then obtain B where B: "roundDouble (f * b) = Fin B" "\<bar>B - f * b\<bar> \<le> u"
    using roundDouble_error [of "f * b" 8] unfolding u_def by auto
  have "(of_int 0 :: real) \<le> f0 * a" using xa by simp
  then have A0: "0 \<le> A" using roundDouble_lower [of 0 "f0 * a"] A(1) by auto
  have "(of_int 0 :: real) \<le> f * b" using xb by simp
  then have B0: "0 \<le> B" using roundDouble_lower [of 0 "f * b"] B(1) by auto
  have sum: "A + B \<le> 255 + 255 * w + 2 * u"
    using A(2) B(2) xa(2) xb(2) f0(2) by linarith
  then have "\<bar>A + B\<bar> < 2 powi 8" using A0 B0 small by simp
  then obtain C where C: "roundDouble (A + B) = Fin C" "\<bar>C - (A + B)\<bar> \<le> u"
    using roundDouble_error [of "A + B" 8] unfolding u_def by auto
  have "(of_int 0 :: real) \<le> A + B" using A0 B0 by simp
  then have C0: "0 \<le> C" using roundDouble_lower [of 0 "A + B"] C(1) by auto
  have "C < 256" using C(2) sum small by linarith
  then show ?thesis using C0 by (simp add: f0(1) A(1) B(1) C(1) inChannelRange_def)
qed

lemma mixRgb_range:
  assumes "isByte (rgb_r c0)" "isByte (rgb_g c0)" "isByte (rgb_b c0)"
    and "isByte (rgb_r c1)" "isByte (rgb_g c1)" "isByte (rgb_b c1)"
  shows "inChannelRange (rgb_r (mixRgb c0 c1 (Fin f)))
     \<and> inChannelRange (rgb_g (mixRgb c0 c1 (Fin f)))
     \<and> inChannelRange (rgb_b (mixRgb c0 c1 (Fin f)))"
proof -
  have byte: "inChannelRange x" if "isByte x" for x
    using that by (auto simp: isByte_def inChannelRange_def split: jsnum.splits)
  have mix: "inChannelRange (jadd (jmul (jsub (Fin 1) (Fin f)) x) (jmul (Fin f) y))"
    if "0 < f" "f < 1" "isByte x" "isByte y" for x y
  proof -
    from that(3,4) obtain a b where "x = Fin a" "0 \<le> a" "a \<le> 255" "y = Fin b" "0 \<le> b" "b \<le> 255"
      by (auto simp: isByte_def split: jsnum.splits)
    then show ?thesis using mix_channel [OF that(1,2), of a b] by simp
  qed
  show ?thesis
  proof (cases "f \<le> 0 \<or> 1 \<le> f")
    case True
    then show ?thesis using assms byte by (auto simp: mixRgb_def jle_def jge_def)
  next
    case False
    then have f: "0 < f" "f < 1" by simp_all
    then have "mixRgb c0 c1 (Fin f) =
        \<lparr>rgb_r = jadd (jmul (jsub (Fin 1) (Fin f)) (rgb_r c0)) (jmul (Fin f) (rgb_r c1)),
         rgb_g = jadd (jmul (jsub (Fin 1) (Fin f)) (rgb_g c0)) (jmul (Fin f) (rgb_g c1)),
         rgb_b = jadd (jmul (jsub (Fin 1) (Fin f)) (rgb_b c0)) (jmul (Fin f) (rgb_b c1)),
         rgb_a = None\<rparr>"
      by (simp add: mixRgb_def jle_def jge_def Let_def del: jsub.simps)
    then show ?thesis using mix [OF f] assms by simp
  qed
qed

lemma mixRgb_ends:
  "f \<le> 0 \<Longrightarrow> mixRgb c0 c1 (Fin f) = c0" "1 \<le> f \<Longrightarrow> mixRgb c0 c1 (Fin f) = c1"
  by (auto simp: mixRgb_def jle_def jge_def)

lemma roundDouble_half: "roundDouble (1 / 2) = Fin (1 / 2)" "roundDouble (255 / 2) = Fin (255 / 2)"
  using roundDouble_near [of "- 1" "1 / 2" "2 ^ 52"] roundDouble_near [of 6 "255 / 2" "255 * 2 ^ 45"]
  by (simp_all add: power_int_minus)

lemma mixRgb_half:
  "mixRgb RGB_BLACK RGB_WHITE (Fin (1 / 2))
     = \<lparr>rgb_r = Fin (255 / 2), rgb_g = Fin (255 / 2), rgb_b = Fin (255 / 2), rgb_a = None\<rparr>"
  by (simp add: mixRgb_def RGB_BLACK_def RGB_WHITE_def jle_def jge_def Let_def roundDouble_half
      roundDouble_zero)

lemma not_byte_half: "\<not> isByte (Fin (255 / 2))"
proof -
  have "\<lfloor>255 / 2 :: real\<rfloor> = 127" by linarith
  then show ?thesis by (simp add: isByte_def)
qed

lemma hexToRgb_example:
  "hexToRgb ''#fA3'' = Some \<lparr>rgb_r = Fin 255, rgb_g = Fin 170, rgb_b = Fin 51, rgb_a = None\<rparr>"
proof -
  have d: "list_all isHexDigit ''fA3''" "list_all isHexDigit ''ffAA33''"
    by (simp_all add: isHexDigit_def isRadixDigit_def digitValue_def)
  have "hexToRgb ''#fA3'' = hexToRgb ''ffAA33''"
    using hexToRgb_three_digits [OF d(1)] by simp
  also have "\<dots> = Some \<lparr>rgb_r = Fin 255, rgb_g = Fin 170, rgb_b = Fin 51, rgb_a = None\<rparr>"
    using hexToRgb_six_digits [OF d(2)] by (simp add: digitValue_def)
  finally show ?thesis .
qed

lemma black_white_bytes:
  "isByte (rgb_r RGB_BLACK)" "isByte (rgb_g RGB_BLACK)" "isByte (rgb_b RGB_BLACK)"
  "isByte (rgb_r RGB_WHITE)" "isByte (rgb_g RGB_WHITE)" "isByte (rgb_b RGB_WHITE)"
  by (simp_all add: RGB_BLACK_def RGB_WHITE_def isByte_def)

text \<open>
  Claim C7, as the code has it: the colours that \<^verbatim>\<open>decimalToRgb\<close>, \<^verbatim>\<open>hexToRgb\<close> (when
  not \<^verbatim>\<open>null\<close>) and \<^verbatim>\<open>hsvToRgb\<close> (of real \<open>h\<close>, \<open>s\<close>, \<open>v\<close>) produce have integer
  components between 0 and 255. \<^verbatim>\<open>mixRgb\<close> of two such colours returns the first at a
  fraction of 0 or less and the second at a fraction of 1 or more; at any real fraction
  its components are at least 0 and below 256, integers or not.
\<close>

theorem color_components_range:
  "isByte (rgb_r (decimalToRgb d)) \<and> isByte (rgb_g (decimalToRgb d))
   \<and> isByte (rgb_b (decimalToRgb d))
   \<and> (hexToRgb hex = Some c \<longrightarrow> isByte (rgb_r c) \<and> isByte (rgb_g c) \<and> isByte (rgb_b c))
   \<and> isByte (rgb_r (hsvToRgb \<lparr>hsv_h = Fin h, hsv_s = Fin s, hsv_v = Fin v\<rparr>))
   \<and> isByte (rgb_g (hsvToRgb \<lparr>hsv_h = Fin h, hsv_s = Fin s, hsv_v = Fin v\<rparr>))
   \<and> isByte (rgb_b (hsvToRgb \<lparr>hsv_h = Fin h, hsv_s = Fin s, hsv_v = Fin v\<rparr>))
   \<and> (isByte (rgb_r c0) \<and> isByte (rgb_g c0) \<and> isByte (rgb_b c0)
       \<and> isByte (rgb_r c1) \<and> isByte (rgb_g c1) \<and> isByte (rgb_b c1) \<longrightarrow>
       inChannelRange (rgb_r (mixRgb c0 c1 (Fin f)))
       \<and> inChannelRange (rgb_g (mixRgb c0 c1 (Fin f)))
       \<and> inChannelRange (rgb_b (mixRgb c0 c1 (Fin f))))
   \<and> (lo \<le> 0 \<longrightarrow> mixRgb c0 c1 (Fin lo) = c0)
   \<and> (1 \<le> hi \<longrightarrow> mixRgb c0 c1 (Fin hi) = c1)"
proof -
  have mix: "inChannelRange (rgb_r (mixRgb c0 c1 (Fin f)))
       \<and> inChannelRange (rgb_g (mixRgb c0 c1 (Fin f)))
       \<and> inChannelRange (rgb_b (mixRgb c0 c1 (Fin f)))"
    if "isByte (rgb_r c0) \<and> isByte (rgb_g c0) \<and> isByte (rgb_b c0)
       \<and> isByte (rgb_r c1) \<and> isByte (rgb_g c1) \<and> isByte (rgb_b c1)"
    using that by (intro mixRgb_range) simp_all
  show ?thesis
    using decimalToRgb_isByte [of d] hexToRgb_isByte [of hex c] hsvToRgb_isByte [of h s v]
      mix mixRgb_ends [of lo c0 c1] mixRgb_ends(2) [of hi c0 c1]
    by blast
qed

theorem color_components_range_witness:
  "hexToRgb ''#fA3'' = Some \<lparr>rgb_r = Fin 255, rgb_g = Fin 170, rgb_b = Fin 51, rgb_a = None\<rparr>
   \<and> isByte (Fin 255) \<and> isByte (Fin 170) \<and> isByte (Fin 51)
   \<and> isByte (rgb_r RGB_BLACK) \<and> isByte (rgb_g RGB_BLACK) \<and> isByte (rgb_b RGB_BLACK)
   \<and> isByte (rgb_r RGB_WHITE) \<and> isByte (rgb_g RGB_WHITE) \<and> isByte (rgb_b RGB_WHITE)
   \<and> inChannelRange (rgb_r (mixRgb RGB_BLACK RGB_WHITE (Fin (1 / 2))))
   \<and> inChannelRange (rgb_g (mixRgb RGB_BLACK RGB_WHITE (Fin (1 / 2))))
   \<and> inChannelRange (rgb_b (mixRgb RGB_BLACK RGB_WHITE (Fin (1 / 2))))
   \<and> (0 :: real) \<le> 0 \<and> mixRgb RGB_BLACK RGB_WHITE (Fin 0) = RGB_BLACK
   \<and> (1 :: real) \<le> 1 \<and> mixRgb RGB_BLACK RGB_WHITE (Fin 1) = RGB_WHITE"
  using color_components_range [where hex = "''#fA3''"
      and c = "\<lparr>rgb_r = Fin 255, rgb_g = Fin 170, rgb_b = Fin 51, rgb_a = None\<rparr>"
      and ?c0.0 = RGB_BLACK and ?c1.0 = RGB_WHITE and f = "1 / 2" and lo = 0 and hi = 1]
    hexToRgb_example black_white_bytes
  by simp

text \<open>
  Claim C7 as stated asks for integer components from \<^verbatim>\<open>mixRgb\<close> too. Black and white
  mixed at one half have the components 127.5.
\<close>

theorem mixRgb_half_counterexample:
  "isByte (rgb_r RGB_BLACK) \<and> isByte (rgb_g RGB_BLACK) \<and> isByte (rgb_b RGB_BLACK)
   \<and> isByte (rgb_r RGB_WHITE) \<and> isByte (rgb_g RGB_WHITE) \<and> isByte (rgb_b RGB_WHITE)
   \<and> rgb_r (mixRgb RGB_BLACK RGB_WHITE (Fin (1 / 2))) = Fin (255 / 2)
   \<and> \<not> isByte (rgb_r (mixRgb RGB_BLACK RGB_WHITE (Fin (1 / 2))))"
  using black_white_bytes not_byte_half by (simp add: mixRgb_half)

section \<open>Exceptions\<close>

lemma hexToRgb_zzz: "hexToRgb ''zzz'' = None" "hexToRgb ''#zzz'' = None"
  by (simp_all add: hexToRgb_def shorthandRegex_def sixDigitRegex_def optionalHash_def
      isHexDigit_def isRadixDigit_def digitValue_def)

text \<open>
  Claim C2 fails at \<^verbatim>\<open>hexToDecimal\<close>: it hands the result of \<^verbatim>\<open>hexToRgb\<close> to
  \<^verbatim>\<open>rgbToDecimal\<close> unchecked, so a string that is no hexadecimal colour, such as
  \<^verbatim>\<open>"zzz"\<close>, ends in a TypeError; it does so exactly when \<^verbatim>\<open>hexToRgb\<close> gives
  \<^verbatim>\<open>null\<close>. \<^verbatim>\<open>toRgbColorObject\<close> checks for \<^verbatim>\<open>null\<close> and returns black.
\<close>

theorem hexToDecimal_malformed_throws:
  "hexToDecimal ''zzz'' = Inl TypeError
   \<and> (hexToDecimal hex = Inl TypeError) = (hexToRgb hex = None)
   \<and> toRgbColorObject (Str ''#zzz'')
       = \<lparr>rgb_r = Fin 0, rgb_g = Fin 0, rgb_b = Fin 0, rgb_a = Some (Fin 255)\<rparr>"
  by (auto simp: hexToDecimal_def rgbToDecimal_def hexToRgb_zzz toRgbColorObject_def
      split: option.splits)

end
